theory Spec2Isabelle
  imports Main "HOL-Library.Word" "HOL-Library.AList"
begin

section \<open>The service store of the Zato server\<close>

text \<open>
  A shallow embedding of \<^verbatim>\<open>zato/server/service/store.py\<close> (class \<^verbatim>\<open>ServiceStore\<close>).
  Python exceptions are values of the type \<open>error\<close> and a call that may raise returns
  \<open>error + 'a\<close> (\<open>Inl\<close> the exception). Everything the store mutates or reads from its
  environment (the registry dictionary, the file system, the logger, the calls made to the
  durable store, the clock and the random source) is a field of the record \<open>world\<close>, which
  every operation takes and returns. Collaborators whose code is not part of the module
  (functions of \<^verbatim>\<open>zato.common\<close>, \<^verbatim>\<open>pip\<close>, \<^verbatim>\<open>imp\<close>, the durable store) are the fields of
  the record \<open>externals\<close>, passed as the parameter \<open>E\<close>.
\<close>

subsection \<open>Exceptions\<close>

datatype error =
    TypeError string
  | ValueError string
  | IOError string
  | OSError string string
  | NameError string
  | AttributeError string
  | IndexError string
  | KeyError string
  | ImportError string
  | RuntimeError string
  | OtherException string
  | KeyboardInterrupt
  | SystemExit

text \<open>
  \<^verbatim>\<open>except Exception\<close> catches every exception class but the two that derive from
  \<^verbatim>\<open>BaseException\<close> directly.
\<close>

fun is_Exception :: "error \<Rightarrow> bool" where
  "is_Exception KeyboardInterrupt = False"
| "is_Exception SystemExit = False"
| "is_Exception _ = True"

fun is_TypeError :: "error \<Rightarrow> bool" where
  "is_TypeError (TypeError _) = True"
| "is_TypeError _ = False"

fun is_IOError :: "error \<Rightarrow> bool" where
  "is_IOError (IOError _) = True"
| "is_IOError _ = False"

fun is_AttributeError :: "error \<Rightarrow> bool" where
  "is_AttributeError (AttributeError _) = True"
| "is_AttributeError _ = False"

text \<open>\<^verbatim>\<open>traceback.format_exc\<close>: the text the log lines carry for an exception.\<close>

fun format_exc :: "error \<Rightarrow> string" where
  "format_exc (TypeError m) = ''TypeError: '' @ m"
| "format_exc (ValueError m) = ''ValueError: '' @ m"
| "format_exc (IOError m) = ''IOError: '' @ m"
| "format_exc (OSError c m) = ''OSError: '' @ c @ '' '' @ m"
| "format_exc (NameError m) = ''NameError: '' @ m"
| "format_exc (AttributeError m) = ''AttributeError: '' @ m"
| "format_exc (IndexError m) = ''IndexError: '' @ m"
| "format_exc (KeyError m) = ''KeyError: '' @ m"
| "format_exc (ImportError m) = ''ImportError: '' @ m"
| "format_exc (RuntimeError m) = ''RuntimeError: '' @ m"
| "format_exc (OtherException m) = m"
| "format_exc KeyboardInterrupt = ''KeyboardInterrupt''"
| "format_exc SystemExit = ''SystemExit''"

subsection \<open>Python classes and module attributes\<close>

text \<open>
  A class object: its identity (what \<^verbatim>\<open>is\<close> compares), its name, its direct base
  classes and the names of the attributes its own body binds. The bases are class objects
  themselves, so a hierarchy is a finite tree and has no cycle, as in Python.
\<close>

datatype pyclass =
  PyClass (class_id: nat) (class_name: string) (bases: "pyclass list") (own_attrs: "string list")

text \<open>
  An object that is not a class, as far as the store looks at it: what reading its
  \<^verbatim>\<open>__bases__\<close> attribute does, the names of its attributes (data attributes: none of
  them can be called) and what \<^verbatim>\<open>str\<close> of it gives, which is an exception when its
  \<^verbatim>\<open>__str__\<close> raises one.
\<close>

datatype bases_lookup =
    NoBases
  | BasesRaise error
  | BasesNotTuple
  | BasesTuple "pyclass list"

datatype pyobj =
  PyObj (obj_bases: bases_lookup) (obj_attrs: "string list") (obj_str: "error + string")

text \<open>The values a module attribute can hold: a class, or any other object.\<close>

datatype pyval = ClassObj pyclass | OtherObj pyobj

text \<open>What \<^verbatim>\<open>'{}'.format(item)\<close> puts in place of the braces: \<^verbatim>\<open>str(item)\<close>.\<close>

fun str_of :: "pyval \<Rightarrow> error + string" where
  "str_of (ClassObj c) = Inr (class_name c)"
| "str_of (OtherObj obj) = obj_str obj"

text \<open>\<^verbatim>\<open>a is b\<close> on class objects, and \<^verbatim>\<open>item is cls\<close> for a module attribute.\<close>

definition is_same :: "pyclass \<Rightarrow> pyclass \<Rightarrow> bool" where
  "is_same a b \<longleftrightarrow> class_id a = class_id b"

fun is_class :: "pyval \<Rightarrow> pyclass \<Rightarrow> bool" where
  "is_class (ClassObj c) cls = is_same c cls"
| "is_class (OtherObj obj) cls = False"

text \<open>
  \<^verbatim>\<open>issubclass(c, target)\<close> for a class \<open>c\<close>: the class itself, or a base of it, directly
  or through further bases.
\<close>

fun subclass_of :: "pyclass \<Rightarrow> pyclass \<Rightarrow> bool" where
  "subclass_of (PyClass i n bs as) target =
     (i = class_id target \<or> (\<exists>b \<in> set bs. subclass_of b target))"

text \<open>
  The built-in \<^verbatim>\<open>issubclass\<close>. For a first argument that is not a class it reads
  \<^verbatim>\<open>__bases__\<close>: an AttributeError there, or a value that is no tuple, gives
  TypeError; any other exception raised by the lookup is passed on; a tuple is searched
  as the bases of a class are.
\<close>

fun issubclass :: "pyval \<Rightarrow> pyclass \<Rightarrow> error + bool" where
  "issubclass (ClassObj c) target = Inr (subclass_of c target)"
| "issubclass (OtherObj obj) target =
     (case obj_bases obj of
        NoBases \<Rightarrow> Inl (TypeError ''issubclass() arg 1 must be a class'')
      | BasesRaise e \<Rightarrow>
          if is_AttributeError e then Inl (TypeError ''issubclass() arg 1 must be a class'')
          else Inl e
      | BasesNotTuple \<Rightarrow> Inl (TypeError ''issubclass() arg 1 must be a class'')
      | BasesTuple bs \<Rightarrow> Inr (\<exists>b \<in> set bs. subclass_of b target))"

text \<open>
  \<^verbatim>\<open>hasattr(c, name)\<close> for a class: the attribute is bound by the class body or inherited
  from a base. For another object: it has an attribute of this name.
\<close>

fun hasattr :: "pyclass \<Rightarrow> string \<Rightarrow> bool" where
  "hasattr (PyClass i n bs as) name = (name \<in> set as \<or> (\<exists>b \<in> set bs. hasattr b name))"

fun has_attribute :: "pyval \<Rightarrow> string \<Rightarrow> bool" where
  "has_attribute (ClassObj c) name = hasattr c name"
| "has_attribute (OtherObj obj) name = (name \<in> set (obj_attrs obj))"

text \<open>
  The subclass relation as the language defines it, for comparison with \<open>subclass_of\<close>:
  every class is a subclass of itself, and of whatever a direct base of it is a subclass of.
\<close>

inductive derives_from :: "pyclass \<Rightarrow> pyclass \<Rightarrow> bool" where
  same: "class_id c = class_id target \<Longrightarrow> derives_from c target"
| base: "b \<in> set (bases c) \<Longrightarrow> derives_from b target \<Longrightarrow> derives_from c target"

text \<open>
  A loaded module: \<^verbatim>\<open>__name__\<close>, \<^verbatim>\<open>__file__\<close> (built-in modules have none) and the
  attributes in the order \<^verbatim>\<open>dir(mod)\<close> lists them, each with what \<^verbatim>\<open>getattr\<close> returns.
\<close>

record pymodule =
  mod_name :: string
  mod_file :: "string option"
  mod_attrs :: "(string \<times> pyval) list"

subsection \<open>The world the store runs in\<close>

type_synonym byte = "8 word"

datatype fsnode = Dir | File (readable: bool) (content: "byte list")

type_synonym filesystem = "string \<rightharpoonup> fsnode"

datatype log_level = DEBUG | TRACE1 | ERROR

text \<open>A log call: the level, the message template and the values formatted into it.\<close>

datatype log_record = LogRecord log_level string "string list"

text \<open>
  Modelled from the spec: \<^verbatim>\<open>zato.common.SourceInfo\<close> is not among the sources. The spec's
  provenance record holds the raw source bytes, the digest, the digest algorithm name and
  the source file path, each absent until it is set.
\<close>

record source_info =
  source :: "byte list option"
  path :: "string option"
  hash :: "string option"
  hash_method :: "string option"

definition SourceInfo :: source_info where
  "SourceInfo = \<lparr>source = None, path = None, hash = None, hash_method = None\<rparr>"

text \<open>
  One value of \<^verbatim>\<open>self.services\<close>: a dictionary that holds up to three keys,
  \<^verbatim>\<open>'deployment_info'\<close>, \<^verbatim>\<open>'service_class'\<close> and \<^verbatim>\<open>'is_active'\<close>. A key that has not
  been assigned is \<open>None\<close> here.
\<close>

record service_entry =
  deployment_info :: "string option"
  service_class :: "pyclass option"
  is_active :: "bool option"

definition empty_entry :: service_entry where
  "empty_entry = \<lparr>deployment_info = None, service_class = None, is_active = None\<rparr>"

text \<open>The arguments of one call of \<^verbatim>\<open>self.odb.add_service\<close>.\<close>

record odb_call =
  call_name :: string
  call_impl_name :: string
  call_is_internal :: bool
  call_timestamp :: string
  call_depl_info :: string
  call_source_info :: source_info

text \<open>
  \<open>services\<close> is the registry dictionary \<^verbatim>\<open>self.services\<close>, kept as an association list so
  that a duplicate key would show; \<open>odb_calls\<close> is the trace of calls made to the durable
  store; \<open>clock\<close> counts the readings of the system clock and \<open>entropy\<close> the draws from
  the random source.
\<close>

record world =
  services :: "(string \<times> service_entry) list"
  fs :: filesystem
  log_records :: "log_record list"
  odb_calls :: "odb_call list"
  clock :: nat
  entropy :: nat

text \<open>
  The collaborators that are imported into the module and whose code is elsewhere.
  \<open>add_service\<close> answers a call from the calls made before it and the call itself;
  \<open>visit_py_source_from_distribution\<close> is a generator, given here by the paths it yields
  and the exception, if any, that ends the iteration; \<open>util_decompress\<close> is
  \<^verbatim>\<open>zato.common.util.decompress\<close>; \<open>load_source\<close> is \<^verbatim>\<open>imp.load_source\<close>, a function of
  the module name, the path and the bytes of the file; \<open>utcnow_isoformat n\<close> and
  \<open>fs_safe_now n\<close> are what the \<open>n\<close>-th reading of the clock gives as
  \<^verbatim>\<open>datetime.utcnow().isoformat()\<close> and as \<^verbatim>\<open>fs_safe_now()\<close>; \<open>uuid4 n\<close> is the integer of
  the \<open>n\<close>-th random UUID; \<open>sha256_hexdigest bs\<close> is \<^verbatim>\<open>hashlib.sha256(bs).hexdigest()\<close>.
\<close>

record externals =
  Service :: pyclass
  AdminService :: pyclass
  DONT_DEPLOY_ATTR_NAME :: string
  get_impl_name :: "pyclass \<Rightarrow> string"
  get_name :: "pyclass \<Rightarrow> string"
  deployment_info_of :: "string \<Rightarrow> pyclass \<Rightarrow> string \<Rightarrow> string \<Rightarrow> string"
  dumps :: "string \<Rightarrow> string"
  add_service :: "odb_call list \<Rightarrow> odb_call \<Rightarrow> error + (nat \<times> bool)"
  is_archive_file :: "string \<Rightarrow> bool"
  is_python_file :: "string \<Rightarrow> bool"
  visit_py_source_from_distribution :: "filesystem \<Rightarrow> string \<Rightarrow> string list \<times> error option"
  util_decompress :: "string \<Rightarrow> string \<Rightarrow> filesystem \<Rightarrow> error option \<times> filesystem"
  load_source :: "string \<Rightarrow> string \<Rightarrow> byte list \<Rightarrow> error + pymodule"
  import_module :: "string \<Rightarrow> filesystem \<Rightarrow> error + pymodule"
  getsourcefile :: "pymodule \<Rightarrow> filesystem \<Rightarrow> error + string option"
  utcnow_isoformat :: "nat \<Rightarrow> string"
  fs_safe_now :: "nat \<Rightarrow> string"
  uuid4 :: "nat \<Rightarrow> nat"
  sha256_hexdigest :: "byte list \<Rightarrow> string"

definition log_msg :: "log_level \<Rightarrow> string \<Rightarrow> string list \<Rightarrow> world \<Rightarrow> world" where
  "log_msg lvl msg args w = w\<lparr>log_records := log_records w @ [LogRecord lvl msg args]\<rparr>"

subsection \<open>\<^verbatim>\<open>ServiceStore._should_deploy\<close>\<close>

text \<open>
  The method returns \<^verbatim>\<open>True\<close> from the innermost \<^verbatim>\<open>if\<close> and falls off its end
  otherwise, which returns \<^verbatim>\<open>None\<close>: the result is \<open>Some True\<close> or \<open>None\<close>. Inside
  the \<^verbatim>\<open>try\<close> only \<^verbatim>\<open>issubclass\<close> can raise (\<^verbatim>\<open>hasattr\<close> swallows what the
  attribute lookup raises). The handler of TypeError formats \<^verbatim>\<open>name\<close>, \<^verbatim>\<open>item\<close> and the
  traceback into its message before it calls the logger: an exception raised by
  \<^verbatim>\<open>str(item)\<close> leaves the method, and so does any exception of \<^verbatim>\<open>issubclass\<close> that is
  no TypeError.
\<close>

definition should_deploy ::
  "externals \<Rightarrow> string \<Rightarrow> pyval \<Rightarrow> world \<Rightarrow> (error + bool option) \<times> world" where
  "should_deploy E name item w =
     (case issubclass item (Service E) of
        Inr b \<Rightarrow>
          if b then
            if \<not> is_class item (AdminService E) \<and> \<not> is_class item (Service E) then
              if \<not> has_attribute item (DONT_DEPLOY_ATTR_NAME E) then (Inr (Some True), w)
              else (Inr None, w)
            else (Inr None, w)
          else (Inr None, w)
      | Inl e \<Rightarrow>
          if is_TypeError e then
            (case str_of item of
               Inl e' \<Rightarrow> (Inl e', w)
             | Inr s \<Rightarrow>
                 (Inr None,
                  log_msg TRACE1 ''Ignoring exception, name:[{}], item:[{}], e:[{}]''
                    [name, s, format_exc e] w))
          else (Inl e, w))"

text \<open>Python's truth test of the value \<^verbatim>\<open>_should_deploy\<close> returns.\<close>

fun truthy :: "bool option \<Rightarrow> bool" where
  "truthy (Some b) = b"
| "truthy None = False"

subsection \<open>Sequencing\<close>

text \<open>
  \<open>and_then m f\<close> runs \<open>m\<close> and, unless it raised, passes its value to \<open>f\<close>: the
  sequencing of two Python statements. \<open>ret\<close> returns a value, \<open>raise\<close> raises.
\<close>

definition ret :: "'a \<Rightarrow> world \<Rightarrow> (error + 'a) \<times> world" where
  "ret x w = (Inr x, w)"

definition raise :: "error \<Rightarrow> world \<Rightarrow> (error + 'a) \<times> world" where
  "raise e w = (Inl e, w)"

definition and_then ::
  "(world \<Rightarrow> (error + 'a) \<times> world) \<Rightarrow> ('a \<Rightarrow> world \<Rightarrow> (error + 'b) \<times> world)
     \<Rightarrow> world \<Rightarrow> (error + 'b) \<times> world" where
  "and_then m f w = (case m w of (Inl e, w') \<Rightarrow> (Inl e, w') | (Inr a, w') \<Rightarrow> f a w')"

subsection \<open>Strings and \<^verbatim>\<open>os.path\<close> (posixpath)\<close>

definition startswith :: "string \<Rightarrow> string \<Rightarrow> bool" where
  "startswith s p \<longleftrightarrow> take (length p) s = p"

definition endswith :: "string \<Rightarrow> string \<Rightarrow> bool" where
  "endswith s p \<longleftrightarrow> length p \<le> length s \<and> drop (length s - length p) s = p"

definition all_slashes :: "string \<Rightarrow> bool" where
  "all_slashes s \<longleftrightarrow> set s \<subseteq> {CHR ''/''}"

definition rstrip_slashes :: "string \<Rightarrow> string" where
  "rstrip_slashes s = rev (dropWhile (\<lambda>c. c = CHR ''/'') (rev s))"

definition os_path_isabs :: "string \<Rightarrow> bool" where
  "os_path_isabs s = startswith s ''/''"

text \<open>
  \<^verbatim>\<open>os.path.join(a, *p)\<close>. The first argument may be \<^verbatim>\<open>None\<close> (the store passes
  \<^verbatim>\<open>base_dir=None\<close> and \<^verbatim>\<open>work_dir=None\<close>): \<^verbatim>\<open>None.endswith\<close> raises AttributeError
  unless the next component is absolute and replaces the path.
\<close>

fun os_path_join :: "string option \<Rightarrow> string list \<Rightarrow> error + string option" where
  "os_path_join a [] = Inr a"
| "os_path_join a (b # p) =
     (if startswith b ''/'' then os_path_join (Some b) p
      else case a of
        None \<Rightarrow> Inl (AttributeError ''endswith'')
      | Some s \<Rightarrow>
          if s = [] \<or> endswith s ''/'' then os_path_join (Some (s @ b)) p
          else os_path_join (Some (s @ ''/'' @ b)) p)"

text \<open>\<^verbatim>\<open>os.path.split\<close>: the head up to the last slash (trailing slashes stripped unless it
  is the root) and the tail after it.\<close>

definition os_path_split :: "string \<Rightarrow> string \<times> string" where
  "os_path_split p =
     (let tail = rev (takeWhile (\<lambda>c. c \<noteq> CHR ''/'') (rev p));
          head = rev (dropWhile (\<lambda>c. c \<noteq> CHR ''/'') (rev p))
      in (if head \<noteq> [] \<and> \<not> all_slashes head then rstrip_slashes head else head, tail))"

text \<open>\<^verbatim>\<open>os.path.splitext\<close>: the extension starts at the last dot of the last component,
  unless that component consists of leading dots only up to there.\<close>

definition os_path_splitext :: "string \<Rightarrow> string \<times> string" where
  "os_path_splitext p =
     (let ext_rev = takeWhile (\<lambda>c. c \<noteq> CHR ''.'') (rev p)
      in if CHR ''.'' \<in> set p \<and> CHR ''/'' \<notin> set ext_rev then
           (let dotIndex = length p - Suc (length ext_rev);
                stem = take dotIndex p;
                filename = rev (takeWhile (\<lambda>c. c \<noteq> CHR ''/'') (rev stem))
            in if \<exists>c \<in> set filename. c \<noteq> CHR ''.'' then (stem, drop dotIndex p) else (p, []))
         else (p, []))"

text \<open>\<^verbatim>\<open>str.split(sep)\<close> and \<^verbatim>\<open>sep.join(parts)\<close> for the one-character separator.\<close>

fun split_on :: "char \<Rightarrow> string \<Rightarrow> string list" where
  "split_on sep [] = [[]]"
| "split_on sep (x # xs) =
     (if x = sep then [] # split_on sep xs
      else case split_on sep xs of [] \<Rightarrow> [[x]] | y # ys \<Rightarrow> (x # y) # ys)"

fun join_with :: "char \<Rightarrow> string list \<Rightarrow> string" where
  "join_with sep [] = []"
| "join_with sep [x] = x"
| "join_with sep (x # y # ys) = x @ sep # join_with sep (y # ys)"

text \<open>\<^verbatim>\<open>os.path.normpath\<close>: one step of its loop over the components, and the whole.\<close>

definition normpath_step :: "nat \<Rightarrow> string list \<Rightarrow> string \<Rightarrow> string list" where
  "normpath_step initial_slashes new_comps part =
     (if part = [] \<or> part = ''.'' then new_comps
      else if part \<noteq> ''..'' \<or> (initial_slashes = 0 \<and> new_comps = [])
                \<or> (new_comps \<noteq> [] \<and> last new_comps = ''..'')
        then new_comps @ [part]
      else if new_comps \<noteq> [] then butlast new_comps
      else new_comps)"

definition os_path_normpath :: "string \<Rightarrow> string" where
  "os_path_normpath p =
     (if p = [] then ''.''
      else
        (let initial_slashes =
               (if startswith p ''/'' then
                  (if startswith p ''//'' \<and> \<not> startswith p ''///'' then 2 else 1)
                else 0);
             comps = foldl (normpath_step initial_slashes) [] (split_on (CHR ''/'') p);
             q = replicate initial_slashes (CHR ''/'') @ join_with (CHR ''/'') comps
         in if q = [] then ''.'' else q))"

subsection \<open>The file system\<close>

lemma length_rstrip_slashes: "length (rstrip_slashes s) \<le> length s"
  using length_dropWhile_le [of "\<lambda>c. c = CHR ''/''" "rev s"] by (simp add: rstrip_slashes_def)

lemma length_fst_os_path_split: "length (fst (os_path_split p)) \<le> length p"
proof -
  have "length (rstrip_slashes (rev (dropWhile (\<lambda>c. c \<noteq> CHR ''/'') (rev p))))
          \<le> length (rev (dropWhile (\<lambda>c. c \<noteq> CHR ''/'') (rev p)))"
    by (rule length_rstrip_slashes)
  moreover have "length (rev (dropWhile (\<lambda>c. c \<noteq> CHR ''/'') (rev p))) \<le> length p"
    using length_dropWhile_le [of "\<lambda>c. c \<noteq> CHR ''/''" "rev p"] by simp
  ultimately show ?thesis by (simp add: os_path_split_def Let_def)
qed

lemma length_take_drop_while: "length (takeWhile P xs) + length (dropWhile P xs) = length xs"
proof -
  have "length (takeWhile P xs) + length (dropWhile P xs) = length (takeWhile P xs @ dropWhile P xs)"
    by (simp only: length_append)
  also have "\<dots> = length xs"
    by (simp only: takeWhile_dropWhile_id)
  finally show ?thesis .
qed

lemma length_fst_os_path_split_less:
  assumes "snd (os_path_split p) \<noteq> []"
  shows "length (fst (os_path_split p)) < length p"
proof -
  let ?t = "takeWhile (\<lambda>c. c \<noteq> CHR ''/'') (rev p)"
  let ?d = "dropWhile (\<lambda>c. c \<noteq> CHR ''/'') (rev p)"
  from assms have "?t \<noteq> []" by (simp add: os_path_split_def Let_def)
  moreover have "length ?t + length ?d = length p"
    using length_take_drop_while [of "\<lambda>c. c \<noteq> CHR ''/''" "rev p"] by simp
  ultimately have "length ?d < length p" by (cases ?t) auto
  moreover have "length (fst (os_path_split p)) \<le> length ?d"
    using length_rstrip_slashes [of "rev ?d"] by (simp add: os_path_split_def Let_def)
  ultimately show ?thesis by simp
qed

lemma length_rstrip_slashes_less:
  assumes "p \<noteq> []" and "last p = CHR ''/''"
  shows "length (rstrip_slashes p) < length p"
proof -
  from assms obtain xs where "rev p = CHR ''/'' # xs"
    by (cases "rev p") (auto simp: last_rev [symmetric] simp del: last_rev)
  then have "length (dropWhile (\<lambda>c. c = CHR ''/'') (rev p)) \<le> length xs"
    using length_dropWhile_le [of "\<lambda>c. c = CHR ''/''" xs] by simp
  moreover from \<open>rev p = CHR ''/'' # xs\<close> have "length p = Suc (length xs)"
    by (metis length_Cons length_rev)
  ultimately show ?thesis by (simp add: rstrip_slashes_def)
qed

lemma length_dirname_less:
  assumes "p \<noteq> []" and "\<not> all_slashes p"
  shows "length (fst (os_path_split p)) < length p"
proof (cases "snd (os_path_split p) = []")
  case False
  then show ?thesis by (rule length_fst_os_path_split_less)
next
  case True
  then have t: "takeWhile (\<lambda>c. c \<noteq> CHR ''/'') (rev p) = []"
    by (simp add: os_path_split_def Let_def)
  with assms(1) have l: "last p = CHR ''/''"
    by (cases "rev p") (auto simp: last_rev [symmetric] simp del: last_rev split: if_splits)
  from t have "dropWhile (\<lambda>c. c \<noteq> CHR ''/'') (rev p) = rev p"
    by (metis append_Nil takeWhile_dropWhile_id)
  with assms have "fst (os_path_split p) = rstrip_slashes p"
    by (simp add: os_path_split_def Let_def)
  with length_rstrip_slashes_less [OF assms(1) l] show ?thesis by simp
qed

text \<open>
  The file system maps the spelling of a path to what is there. A path is looked up as
  it is written, but for its end: the root (slashes only) is a directory, a path that
  ends in a slash or in a component \<^verbatim>\<open>.\<close> or \<^verbatim>\<open>..\<close> names a directory when the path
  before that component is one (by itself, \<^verbatim>\<open>.\<close> or \<^verbatim>\<open>..\<close> is the current directory or
  its parent) and nothing otherwise. There are no symbolic links.
\<close>

function lookup_node :: "filesystem \<Rightarrow> string \<Rightarrow> fsnode option" where
  "lookup_node f p =
     (if p = [] then None
      else if all_slashes p then Some Dir
      else if snd (os_path_split p) \<in> {[], ''.'', ''..''} then
        (if fst (os_path_split p) = [] then Some Dir
         else case lookup_node f (fst (os_path_split p)) of
                Some Dir \<Rightarrow> Some Dir
              | _ \<Rightarrow> None)
      else f p)"
  by pat_completeness auto
termination
  by (relation "measure (\<lambda>(f, p). length p)") (auto simp: length_dirname_less)

declare lookup_node.simps [simp del]

definition os_path_exists :: "filesystem \<Rightarrow> string \<Rightarrow> bool" where
  "os_path_exists f p \<longleftrightarrow> lookup_node f p \<noteq> None"

definition os_path_isdir :: "filesystem \<Rightarrow> string \<Rightarrow> bool" where
  "os_path_isdir f p \<longleftrightarrow> lookup_node f p = Some Dir"

text \<open>\<^verbatim>\<open>open(p, 'rb').read()\<close>: IOError for a missing or unreadable file or a directory.\<close>

definition open_read :: "filesystem \<Rightarrow> string \<Rightarrow> error + byte list" where
  "open_read f p =
     (case lookup_node f p of
        None \<Rightarrow> Inl (IOError (''[Errno 2] No such file or directory: '' @ p))
      | Some Dir \<Rightarrow> Inl (IOError (''[Errno 21] Is a directory: '' @ p))
      | Some (File r bs) \<Rightarrow>
          if r then Inr bs else Inl (IOError (''[Errno 13] Permission denied: '' @ p)))"

text \<open>\<^verbatim>\<open>os.path.getmtime\<close> is \<^verbatim>\<open>os.stat(p).st_mtime\<close>: OSError when the path does not
  exist. The store never uses the time it returns.\<close>

definition getmtime :: "filesystem \<Rightarrow> string \<Rightarrow> error + unit" where
  "getmtime f p =
     (case lookup_node f p of None \<Rightarrow> Inl (OSError ''ENOENT'' p) | Some n \<Rightarrow> Inr ())"

text \<open>\<^verbatim>\<open>os.remove\<close>. A path that names a file is spelled as the file system holds it.\<close>

definition os_remove :: "filesystem \<Rightarrow> string \<Rightarrow> error + filesystem" where
  "os_remove f p =
     (case lookup_node f p of
        None \<Rightarrow> Inl (OSError ''ENOENT'' p)
      | Some Dir \<Rightarrow> Inl (OSError ''EISDIR'' p)
      | Some (File r bs) \<Rightarrow> Inr (f(p := None)))"

text \<open>
  \<^verbatim>\<open>os.mkdir\<close>: what the path names must not exist (EEXIST), with its trailing slashes
  or without them, and its parent must be a directory (the current directory, for a path
  with no parent). The directory is entered under the path without trailing slashes.
  A path that ends in \<^verbatim>\<open>.\<close> or \<^verbatim>\<open>..\<close> names a directory that exists, or cannot be
  resolved.
\<close>

definition os_mkdir :: "filesystem \<Rightarrow> string \<Rightarrow> error option \<times> filesystem" where
  "os_mkdir f p =
     (if p = [] then (Some (OSError ''ENOENT'' p), f)
      else if os_path_exists f p \<or> os_path_exists f (rstrip_slashes p)
        then (Some (OSError ''EEXIST'' p), f)
      else if snd (os_path_split (rstrip_slashes p)) \<in> {''.'', ''..''}
        then (Some (OSError ''ENOENT'' p), f)
      else if fst (os_path_split (rstrip_slashes p)) \<noteq> []
                \<and> \<not> os_path_isdir f (fst (os_path_split (rstrip_slashes p)))
        then (Some (OSError ''ENOENT'' p), f)
      else (None, f(rstrip_slashes p \<mapsto> Dir)))"

text \<open>The head and tail \<^verbatim>\<open>os.makedirs\<close> works with: it splits again when the name ends
  in a slash.\<close>

definition makedirs_split :: "string \<Rightarrow> string \<times> string" where
  "makedirs_split name =
     (if snd (os_path_split name) = [] then os_path_split (fst (os_path_split name))
      else os_path_split name)"

fun is_EEXIST :: "error \<Rightarrow> bool" where
  "is_EEXIST (OSError c p) = (c = ''EEXIST'')"
| "is_EEXIST _ = False"

lemma makedirs_split_less:
  assumes "snd (makedirs_split name) \<noteq> []"
  shows "length (fst (makedirs_split name)) < length name"
proof (cases "snd (os_path_split name) = []")
  case True
  with assms have "length (fst (makedirs_split name)) < length (fst (os_path_split name))"
    by (simp add: makedirs_split_def length_fst_os_path_split_less)
  with length_fst_os_path_split [of name] show ?thesis by simp
next
  case False
  then show ?thesis by (simp add: makedirs_split_def length_fst_os_path_split_less)
qed

text \<open>
  \<^verbatim>\<open>os.makedirs\<close>: creates the missing ancestors first, ignoring EEXIST from that
  recursive call only, then \<^verbatim>\<open>mkdir\<close> of the name itself, whose EEXIST is raised.
\<close>

function os_makedirs :: "filesystem \<Rightarrow> string \<Rightarrow> error option \<times> filesystem" where
  "os_makedirs f name =
     (if fst (makedirs_split name) \<noteq> [] \<and> snd (makedirs_split name) \<noteq> []
         \<and> \<not> os_path_exists f (fst (makedirs_split name)) then
        (case os_makedirs f (fst (makedirs_split name)) of
           (Some e, f') \<Rightarrow>
             if is_EEXIST e then
               (if snd (makedirs_split name) = ''.'' then (None, f') else os_mkdir f' name)
             else (Some e, f')
         | (None, f') \<Rightarrow>
             if snd (makedirs_split name) = ''.'' then (None, f') else os_mkdir f' name)
      else os_mkdir f name)"
  by pat_completeness auto
termination
  by (relation "measure (\<lambda>(f, name). length name)") (auto simp: makedirs_split_less)

declare os_makedirs.simps [simp del]

subsection \<open>\<^verbatim>\<open>uuid4().hex\<close>\<close>

text \<open>The 32 hexadecimal digits of a UUID's 128-bit integer, most significant first.\<close>

definition hex_digit :: "nat \<Rightarrow> char" where
  "hex_digit n = ''0123456789abcdef'' ! (n mod 16)"

fun hex_digits :: "nat \<Rightarrow> nat \<Rightarrow> string" where
  "hex_digits 0 n = []"
| "hex_digits (Suc k) n = hex_digits k (n div 16) @ [hex_digit n]"

definition uuid_hex :: "nat \<Rightarrow> string" where
  "uuid_hex n = hex_digits 32 n"

subsection \<open>Primitive steps on the world\<close>

definition of_result :: "error + 'a \<Rightarrow> world \<Rightarrow> (error + 'a) \<times> world" where
  "of_result r w = (r, w)"

definition read_clock :: "world \<Rightarrow> (error + nat) \<times> world" where
  "read_clock w = (Inr (clock w), w\<lparr>clock := Suc (clock w)\<rparr>)"

definition draw_entropy :: "world \<Rightarrow> (error + nat) \<times> world" where
  "draw_entropy w = (Inr (entropy w), w\<lparr>entropy := Suc (entropy w)\<rparr>)"

definition update_fs ::
  "(filesystem \<Rightarrow> error option \<times> filesystem) \<Rightarrow> world \<Rightarrow> (error + unit) \<times> world" where
  "update_fs g w =
     (case g (fs w) of
        (None, f') \<Rightarrow> (Inr (), w\<lparr>fs := f'\<rparr>)
      | (Some e, f') \<Rightarrow> (Inl e, w\<lparr>fs := f'\<rparr>))"

text \<open>\<^verbatim>\<open>self.services[k] = v\<close> and \<^verbatim>\<open>self.services[k]\<close> (KeyError for a missing key).
  Assigning to a key the dictionary holds replaces its value and adds no entry.\<close>

definition services_setitem :: "string \<Rightarrow> service_entry \<Rightarrow> world \<Rightarrow> (error + unit) \<times> world" where
  "services_setitem k v w = (Inr (), w\<lparr>services := AList.update k v (services w)\<rparr>)"

definition services_getitem :: "string \<Rightarrow> world \<Rightarrow> (error + service_entry) \<times> world" where
  "services_getitem k w =
     (case map_of (services w) k of None \<Rightarrow> (Inl (KeyError k), w) | Some v \<Rightarrow> (Inr v, w))"

text \<open>\<^verbatim>\<open>self.odb.add_service(...)\<close>: the call joins the trace, whatever it answers.\<close>

definition odb_add_service :: "externals \<Rightarrow> odb_call \<Rightarrow> world \<Rightarrow> (error + nat \<times> bool) \<times> world" where
  "odb_add_service E call w =
     (add_service E (odb_calls w) call, w\<lparr>odb_calls := odb_calls w @ [call]\<rparr>)"

subsection \<open>\<^verbatim>\<open>ServiceStore._invoke_hook\<close>\<close>

text \<open>
  The names the module binds at its top level (its imports, \<^verbatim>\<open>logger\<close>,
  \<^verbatim>\<open>get_service_name\<close>, \<^verbatim>\<open>ServiceStore\<close> and the names every module has), and the local
  names of \<^verbatim>\<open>_invoke_hook\<close>. A name that is in neither list and is no built-in raises
  NameError when it is evaluated.
\<close>

definition store_module_names :: "string list" where
  "store_module_names =
     [''__name__'', ''__file__'', ''__doc__'', ''__package__'', ''__builtins__'',
      ''absolute_import'', ''division'', ''print_function'', ''unicode_literals'',
      ''imp'', ''inspect'', ''logging'', ''os'', ''datetime'', ''sha256'', ''import_module'',
      ''getmtime'', ''format_exc'', ''uuid4'', ''is_archive_file'', ''dumps'', ''CDumper'',
      ''Dumper'', ''InitializingObject'', ''DONT_DEPLOY_ATTR_NAME'', ''SourceInfo'',
      ''decompress'', ''deployment_info'', ''fs_safe_now'', ''is_python_file'', ''TRACE1'',
      ''visit_py_source_from_distribution'', ''Service'', ''AdminService'', ''logger'',
      ''get_service_name'', ''ServiceStore'']"

definition invoke_hook_locals :: "string list" where
  "invoke_hook_locals = [''self'', ''object_'', ''hook_name'', ''hook'']"

definition name_lookup :: "string list \<Rightarrow> string \<Rightarrow> error + unit" where
  "name_lookup locals n =
     (if n \<in> set locals \<or> n \<in> set store_module_names then Inr ()
      else Inl (NameError (''global name '' @ n @ '' is not defined'')))"

text \<open>
  An object with hooks: each attribute it has is a callable that runs on the world.
  The \<^verbatim>\<open>try\<close> body is \<^verbatim>\<open>getattr\<close> (AttributeError for a missing attribute) and the call.
  The handler of \<^verbatim>\<open>except Exception\<close> builds its message from \<^verbatim>\<open>hook_name\<close>,
  \<^verbatim>\<open>service_name\<close> and \<^verbatim>\<open>format_exc()\<close>, in this order, before it calls
  \<^verbatim>\<open>logger.error\<close>; an exception raised while it does so leaves the method.
\<close>

type_synonym pyobject = "string \<rightharpoonup> (world \<Rightarrow> (error + unit) \<times> world)"

definition invoke_hook :: "pyobject \<Rightarrow> string \<Rightarrow> world \<Rightarrow> (error + unit) \<times> world" where
  "invoke_hook obj hook_name w =
     (case (case obj hook_name of
              None \<Rightarrow> (Inl (AttributeError hook_name), w)
            | Some hook \<Rightarrow> hook w) of
        (Inr u, w') \<Rightarrow> (Inr (), w')
      | (Inl e, w') \<Rightarrow>
          if is_Exception e then
            (case name_lookup invoke_hook_locals ''service_name'' of
               Inl e' \<Rightarrow> (Inl e', w')
             | Inr u \<Rightarrow>
                 (Inr (),
                  log_msg ERROR ''Error while invoking [%s] on service [%s]  e:[%s]''
                    [hook_name, ''service_name'', format_exc e] w'))
          else (Inl e, w'))"

subsection \<open>\<^verbatim>\<open>ServiceStore.decompress\<close>\<close>

definition decompress ::
  "externals \<Rightarrow> string \<Rightarrow> string option \<Rightarrow> world \<Rightarrow> (error + string) \<times> world" where
  "decompress E archive work_dir =
     and_then draw_entropy (\<lambda>n.
     and_then read_clock (\<lambda>t.
     and_then (of_result (os_path_join work_dir
                 [fs_safe_now E t @ ''-'' @ take 6 (uuid_hex (uuid4 E n)),
                  snd (os_path_split archive)])) (\<lambda>joined.
       case joined of
         None \<Rightarrow> raise (AttributeError ''rfind'')
       | Some dir_name \<Rightarrow>
           and_then (update_fs (\<lambda>f. os_makedirs f dir_name)) (\<lambda>u.
           and_then (update_fs (util_decompress E archive dir_name)) (\<lambda>u.
           ret dir_name)))))"

subsection \<open>\<^verbatim>\<open>ServiceStore._get_source_code_info\<close>\<close>

text \<open>
  The \<^verbatim>\<open>try\<close> body, with the record as far as it was filled when the body ended:
  \<^verbatim>\<open>mod.__file__\<close> (AttributeError without one), \<^verbatim>\<open>file_name[-1]\<close> (IndexError on the
  empty string), the read, \<^verbatim>\<open>inspect.getsourcefile\<close>, the digest and its name.
\<close>

definition source_code_info_body ::
  "externals \<Rightarrow> pymodule \<Rightarrow> filesystem \<Rightarrow> error option \<times> source_info" where
  "source_code_info_body E m f =
     (case mod_file m of
        None \<Rightarrow> (Some (AttributeError ''__file__''), SourceInfo)
      | Some file_name \<Rightarrow>
          if file_name = [] then (Some (IndexError ''string index out of range''), SourceInfo)
          else
            (case open_read f (if last file_name \<in> {CHR ''c'', CHR ''o''}
                                then butlast file_name else file_name) of
               Inl e \<Rightarrow> (Some e, SourceInfo)
             | Inr bs \<Rightarrow>
                 (case getsourcefile E m f of
                    Inl e \<Rightarrow> (Some e, SourceInfo\<lparr>source := Some bs\<rparr>)
                  | Inr p \<Rightarrow>
                      (None, SourceInfo\<lparr>source := Some bs, path := p,
                                         hash := Some (sha256_hexdigest E bs),
                                         hash_method := Some ''SHA-256''\<rparr>))))"

definition get_source_code_info ::
  "externals \<Rightarrow> pymodule \<Rightarrow> world \<Rightarrow> (error + source_info) \<times> world" where
  "get_source_code_info E m w =
     (case source_code_info_body E m (fs w) of
        (None, si) \<Rightarrow> (Inr si, w)
      | (Some e, si) \<Rightarrow>
          if is_IOError e then
            (Inr si, log_msg TRACE1 ''Ignoring IOError, mod:[{}], e:[{}]'' [mod_name m, format_exc e] w)
          else (Inl e, w))"

subsection \<open>\<^verbatim>\<open>ServiceStore._visit_module\<close>\<close>

text \<open>\<^verbatim>\<open>getmtime(mod.__file__)\<close>, whose result the method binds to \<^verbatim>\<open>last_mod\<close> and
  never reads.\<close>

definition module_getmtime :: "pymodule \<Rightarrow> world \<Rightarrow> (error + unit) \<times> world" where
  "module_getmtime m w =
     (case mod_file m of
        None \<Rightarrow> (Inl (AttributeError ''__file__''), w)
      | Some file_name \<Rightarrow> (getmtime (fs w) file_name, w))"

text \<open>The body of the loop over \<^verbatim>\<open>dir(mod)\<close>, for one name and its value.\<close>

definition visit_module_item ::
  "externals \<Rightarrow> pymodule \<Rightarrow> bool \<Rightarrow> string \<Rightarrow> string \<Rightarrow> pyval \<Rightarrow> world \<Rightarrow> (error + unit) \<times> world" where
  "visit_module_item E m is_internal fs_location name item =
     and_then (should_deploy E name item) (\<lambda>r.
       if \<not> truthy r then ret ()
       else
         and_then read_clock (\<lambda>t.
           case item of
             OtherObj obj \<Rightarrow>
               if ''get_impl_name'' \<in> set (obj_attrs obj)
               then raise (TypeError ''object is not callable'')
               else raise (AttributeError ''get_impl_name'')
           | ClassObj c \<Rightarrow>
               and_then (services_setitem (get_impl_name E c) empty_entry) (\<lambda>u.
               and_then (services_getitem (get_impl_name E c)) (\<lambda>v.
               and_then (services_setitem (get_impl_name E c)
                           (v\<lparr>deployment_info :=
                                Some (deployment_info_of E ''ServiceStore'' c (utcnow_isoformat E t) fs_location)\<rparr>)) (\<lambda>u.
               and_then (services_getitem (get_impl_name E c)) (\<lambda>v.
               and_then (services_setitem (get_impl_name E c) (v\<lparr>service_class := Some c\<rparr>)) (\<lambda>u.
               and_then (get_source_code_info E m) (\<lambda>si.
               and_then (module_getmtime m) (\<lambda>last_mod.
               and_then (odb_add_service E
                           \<lparr>call_name = get_name E c,
                            call_impl_name = get_impl_name E c,
                            call_is_internal = is_internal,
                            call_timestamp = utcnow_isoformat E t,
                            call_depl_info =
                              dumps E (deployment_info_of E ''ServiceStore'' c (utcnow_isoformat E t) fs_location),
                            call_source_info = si\<rparr>) (\<lambda>answer.
               and_then (services_getitem (get_impl_name E c)) (\<lambda>v.
               services_setitem (get_impl_name E c) (v\<lparr>is_active := Some (snd answer)\<rparr>))))))))))))"

fun visit_module_loop ::
  "externals \<Rightarrow> pymodule \<Rightarrow> bool \<Rightarrow> string \<Rightarrow> (string \<times> pyval) list \<Rightarrow> world \<Rightarrow> (error + unit) \<times> world" where
  "visit_module_loop E m is_internal fs_location [] w = ret () w"
| "visit_module_loop E m is_internal fs_location ((name, item) # rest) w =
     and_then (visit_module_item E m is_internal fs_location name item)
       (\<lambda>u. visit_module_loop E m is_internal fs_location rest) w"

definition visit_module ::
  "externals \<Rightarrow> pymodule \<Rightarrow> bool \<Rightarrow> string \<Rightarrow> world \<Rightarrow> (error + unit) \<times> world" where
  "visit_module E m is_internal fs_location =
     visit_module_loop E m is_internal fs_location (mod_attrs m)"

subsection \<open>\<^verbatim>\<open>ServiceStore.import_services_from_file\<close>\<close>

text \<open>The loop that deletes \<^verbatim>\<open>file_name + 'c'\<close> and \<^verbatim>\<open>file_name + 'o'\<close> if they exist.\<close>

fun remove_bytecode :: "string \<Rightarrow> string list \<Rightarrow> filesystem \<Rightarrow> error option \<times> filesystem" where
  "remove_bytecode file_name [] f = (None, f)"
| "remove_bytecode file_name (suffix # rest) f =
     (if os_path_exists f (file_name @ suffix) then
        (case os_remove f (file_name @ suffix) of
           Inl e \<Rightarrow> (Some e, f)
         | Inr f' \<Rightarrow> remove_bytecode file_name rest f')
      else remove_bytecode file_name rest f)"

text \<open>\<^verbatim>\<open>imp.load_source(mod_name, file_name)\<close> reads the file and runs its source.\<close>

definition imp_load_source ::
  "externals \<Rightarrow> string \<Rightarrow> string \<Rightarrow> world \<Rightarrow> (error + pymodule) \<times> world" where
  "imp_load_source E name file_name w =
     (case open_read (fs w) file_name of
        Inl e \<Rightarrow> (Inl e, w)
      | Inr bs \<Rightarrow> (load_source E name file_name bs, w))"

definition no_such_path_msg :: "string \<Rightarrow> string" where
  "no_such_path_msg file_name =
     ''Could not import services, path:['' @ file_name @ ''] doesn'' @ [CHR 0x27] @ ''t exist''"

text \<open>The first statement: a relative name is joined to \<^verbatim>\<open>base_dir\<close> and normalised.\<close>

definition absolute_file_name :: "string \<Rightarrow> string option \<Rightarrow> error + string" where
  "absolute_file_name file_name base_dir =
     (if \<not> os_path_isabs file_name then
        (case os_path_join base_dir [file_name] of
           Inl e \<Rightarrow> Inl e
         | Inr None \<Rightarrow> Inl (AttributeError ''startswith'')
         | Inr (Some p) \<Rightarrow> Inr (os_path_normpath p))
      else Inr file_name)"

definition import_services_from_file ::
  "externals \<Rightarrow> string \<Rightarrow> bool \<Rightarrow> string option \<Rightarrow> world \<Rightarrow> (error + unit) \<times> world" where
  "import_services_from_file E file_name is_internal base_dir =
     and_then (of_result (absolute_file_name file_name base_dir)) (\<lambda>file_name.
     and_then (\<lambda>w. if \<not> os_path_exists (fs w) file_name
                    then raise (ValueError (no_such_path_msg file_name)) w
                    else ret () w) (\<lambda>u.
     and_then (update_fs (remove_bytecode file_name [''c'', ''o''])) (\<lambda>u.
     and_then (imp_load_source E (fst (os_path_splitext (snd (os_path_split file_name)))) file_name) (\<lambda>m.
     visit_module E m is_internal file_name))))"

subsection \<open>\<^verbatim>\<open>ServiceStore.import_services_from_directory\<close>\<close>

fun import_services_from_paths ::
  "externals \<Rightarrow> string list \<Rightarrow> world \<Rightarrow> (error + unit) \<times> world" where
  "import_services_from_paths E [] w = ret () w"
| "import_services_from_paths E (py_path # rest) w =
     and_then (import_services_from_file E py_path False None)
       (\<lambda>u. import_services_from_paths E rest) w"

text \<open>The loop runs over what the generator yields; an exception the generator raises
  ends it after the paths yielded before.\<close>

definition import_services_from_directory ::
  "externals \<Rightarrow> string \<Rightarrow> world \<Rightarrow> (error + unit) \<times> world" where
  "import_services_from_directory E dir_name w =
     and_then (import_services_from_paths E (fst (visit_py_source_from_distribution E (fs w) dir_name)))
       (\<lambda>u. case snd (visit_py_source_from_distribution E (fs w) dir_name) of
               None \<Rightarrow> ret ()
             | Some e \<Rightarrow> raise e) w"

subsection \<open>\<^verbatim>\<open>ServiceStore.import_services_from_module\<close>\<close>

text \<open>\<^verbatim>\<open>inspect.getfile\<close> of a module: its \<^verbatim>\<open>__file__\<close>, TypeError for a built-in module.\<close>

definition inspect_getfile :: "pymodule \<Rightarrow> error + string" where
  "inspect_getfile m =
     (case mod_file m of
        None \<Rightarrow> Inl (TypeError (mod_name m @ '' is a built-in module''))
      | Some file_name \<Rightarrow> Inr file_name)"

definition import_services_from_module ::
  "externals \<Rightarrow> string \<Rightarrow> bool \<Rightarrow> world \<Rightarrow> (error + unit) \<times> world" where
  "import_services_from_module E name is_internal =
     and_then (\<lambda>w. (import_module E name (fs w), w)) (\<lambda>m.
     and_then (of_result (inspect_getfile m)) (\<lambda>fs_location.
     visit_module E m is_internal fs_location))"

subsection \<open>\<^verbatim>\<open>ServiceStore.import_services_from_anywhere\<close>\<close>

text \<open>The body of the loop over \<^verbatim>\<open>items\<close>, after the debug line: the \<^verbatim>\<open>if\<close> chain.\<close>

definition import_item ::
  "externals \<Rightarrow> string \<Rightarrow> string option \<Rightarrow> string option \<Rightarrow> world \<Rightarrow> (error + unit) \<times> world" where
  "import_item E item_name base_dir work_dir w =
     (if is_archive_file E item_name then
        and_then (decompress E item_name work_dir)
          (\<lambda>new_path. import_services_from_directory E new_path) w
      else if os_path_isdir (fs w) item_name then
        import_services_from_directory E item_name w
      else if is_python_file E item_name then
        import_services_from_file E item_name (startswith item_name ''zato'') base_dir w
      else
        import_services_from_module E item_name (startswith item_name ''zato'') w)"

fun import_services_from_anywhere ::
  "externals \<Rightarrow> string list \<Rightarrow> string option \<Rightarrow> string option \<Rightarrow> world \<Rightarrow> (error + unit) \<times> world" where
  "import_services_from_anywhere E [] base_dir work_dir w = ret () w"
| "import_services_from_anywhere E (item_name # items) base_dir work_dir w =
     and_then (\<lambda>w. import_item E item_name base_dir work_dir
                  (log_msg DEBUG ''About to import services from:[%s]'' [item_name] w))
       (\<lambda>u. import_services_from_anywhere E items base_dir work_dir) w"

subsection \<open>A concrete deployment\<close>

text \<open>
  Classes, a module, collaborators and a world to run the operations on: the base classes,
  a service \<open>MyService\<close>, a service \<open>Hidden\<close> that carries the "do not deploy" attribute,
  and a source file that defines both next to a helper function.
\<close>

definition Service0 :: pyclass where
  "Service0 = PyClass 1 ''Service'' [] [''handle'']"

definition AdminService0 :: pyclass where
  "AdminService0 = PyClass 2 ''AdminService'' [Service0] []"

definition MyService :: pyclass where
  "MyService = PyClass 10 ''MyService'' [Service0] [''handle'']"

definition Hidden :: pyclass where
  "Hidden = PyClass 11 ''Hidden'' [AdminService0] [''zato_dont_deploy'']"

definition helper :: pyobj where
  "helper = PyObj NoBases [''__name__'', ''__doc__''] (Inr ''<function helper>'')"

definition src0 :: "byte list" where
  "src0 = [0x63, 0x6c, 0x61, 0x73, 0x73]"

definition module0 :: "string \<Rightarrow> string \<Rightarrow> pymodule" where
  "module0 name file_name =
     \<lparr>mod_name = name, mod_file = Some file_name,
      mod_attrs = [(''AdminService'', ClassObj AdminService0), (''Hidden'', ClassObj Hidden),
                   (''MyService'', ClassObj MyService), (''Service'', ClassObj Service0),
                   (''helper'', OtherObj helper)]\<rparr>"

definition E0 :: externals where
  "E0 =
     \<lparr>Service = Service0,
      AdminService = AdminService0,
      DONT_DEPLOY_ATTR_NAME = ''zato_dont_deploy'',
      get_impl_name = (\<lambda>c. ''impl.'' @ class_name c),
      get_name = (\<lambda>c. class_name c),
      deployment_info_of = (\<lambda>method c timestamp fs_location. method @ '' '' @ timestamp @ '' '' @ fs_location),
      dumps = (\<lambda>x. x),
      add_service = (\<lambda>before call. Inr (length before, True)),
      is_archive_file = (\<lambda>name. endswith name ''.tar.bz2''),
      is_python_file = (\<lambda>name. endswith name ''.py'' \<or> endswith name ''.pyw''),
      visit_py_source_from_distribution = (\<lambda>f dir_name. ([dir_name @ ''/svc.py''], None)),
      util_decompress = (\<lambda>archive dir_name f. (None, f(dir_name @ ''/svc.py'' \<mapsto> File True src0))),
      load_source = (\<lambda>name file_name bs. Inr (module0 name file_name)),
      import_module = (\<lambda>name f. if name = ''zato.server.service.internal.ping''
                         then Inr (module0 name ''/opt/zato/ping.py'') else Inl (ImportError name)),
      getsourcefile = (\<lambda>m f. Inr (mod_file m)),
      utcnow_isoformat = (\<lambda>n. ''2012-01-01T00:00:00.00000'' @ [hex_digit n]),
      fs_safe_now = (\<lambda>n. ''2012_01_01T00_00_00_00000'' @ [hex_digit n]),
      uuid4 = (\<lambda>n. 0xabcdef0123454789abcdef0123456789 + n),
      sha256_hexdigest = (\<lambda>bs. replicate 64 (hex_digit (length bs)))\<rparr>"

definition w0 :: world where
  "w0 = \<lparr>services = [], fs = [''/srv/app/svc.py'' \<mapsto> File True src0, ''/srv/app'' \<mapsto> Dir, ''/srv'' \<mapsto> Dir,
                ''/opt/zato/ping.py'' \<mapsto> File True src0],
          log_records = [], odb_calls = [], clock = 0, entropy = 0\<rparr>"

subsection \<open>Notions used in the statements\<close>

text \<open>The test \<^verbatim>\<open>_should_deploy\<close> makes on a class: what the three nested \<^verbatim>\<open>if\<close>s ask.\<close>

definition deployable :: "externals \<Rightarrow> pyclass \<Rightarrow> bool" where
  "deployable E c \<longleftrightarrow>
     subclass_of c (Service E) \<and> \<not> is_same c (AdminService E) \<and> \<not> is_same c (Service E)
       \<and> \<not> hasattr c (DONT_DEPLOY_ATTR_NAME E)"


text \<open>The calls made to the durable store between two worlds.\<close>

definition new_calls :: "world \<Rightarrow> world \<Rightarrow> odb_call list" where
  "new_calls w w' = drop (length (odb_calls w)) (odb_calls w')"

text \<open>The arguments \<^verbatim>\<open>_visit_module\<close> passes to \<^verbatim>\<open>self.odb.add_service\<close> for the class \<open>c\<close>,
  and the registry entry it builds for it, with the clock reading \<open>t\<close> of its time stamp.\<close>

definition the_call :: "externals \<Rightarrow> pyclass \<Rightarrow> bool \<Rightarrow> string \<Rightarrow> nat \<Rightarrow> source_info \<Rightarrow> odb_call" where
  "the_call E c i loc t si =
     \<lparr>call_name = get_name E c, call_impl_name = get_impl_name E c, call_is_internal = i,
      call_timestamp = utcnow_isoformat E t,
      call_depl_info = dumps E (deployment_info_of E ''ServiceStore'' c (utcnow_isoformat E t) loc),
      call_source_info = si\<rparr>"

definition the_entry :: "externals \<Rightarrow> pyclass \<Rightarrow> string \<Rightarrow> nat \<Rightarrow> bool option \<Rightarrow> service_entry" where
  "the_entry E c loc t a =
     \<lparr>deployment_info = Some (deployment_info_of E ''ServiceStore'' c (utcnow_isoformat E t) loc),
      service_class = Some c, is_active = a\<rparr>"

text \<open>A provenance record whose digest, if it has one, is the digest of the bytes it holds,
  with the name of the algorithm.\<close>

definition digest_ok :: "externals \<Rightarrow> source_info \<Rightarrow> bool" where
  "digest_ok E si =
     (case hash si of
        None \<Rightarrow> True
      | Some h \<Rightarrow>
          (case source si of
             None \<Rightarrow> False
           | Some bs \<Rightarrow> h = sha256_hexdigest E bs \<and> hash_method si = Some ''SHA-256''))"

text \<open>What every step of an import keeps: the clock does not go back, calls are only added to
  the trace of the durable store, each satisfying \<open>P\<close>, and the registry loses no key and
  gets no key twice.\<close>

definition grows :: "(odb_call \<Rightarrow> bool) \<Rightarrow> world \<Rightarrow> world \<Rightarrow> bool" where
  "grows P w w' \<longleftrightarrow>
     clock w \<le> clock w'
     \<and> (\<exists>new. odb_calls w' = odb_calls w @ new \<and> list_all P new)
     \<and> set (map fst (services w)) \<subseteq> set (map fst (services w'))
     \<and> (distinct (map fst (services w)) \<longrightarrow> distinct (map fst (services w')))"

text \<open>The four shapes of an item of a batch.\<close>

datatype item_shape = Archive | Directory | SourceFile | ModuleName

text \<open>
  The dispatch the claim describes, written from its words: the shapes in the order they
  are tried, each with its test, the third one as the claim has it (a file that exists
  and has a recognized suffix); an item that matches none is a module name.
\<close>

definition claimed_shape_tests ::
  "externals \<Rightarrow> filesystem \<Rightarrow> (item_shape \<times> (string \<Rightarrow> bool)) list" where
  "claimed_shape_tests E f =
     [(Archive, is_archive_file E), (Directory, os_path_isdir f),
      (SourceFile, \<lambda>item_name. os_path_exists f item_name \<and> is_python_file E item_name)]"

text \<open>The tests the code makes: the third one looks at the name only.\<close>

definition shape_tests :: "externals \<Rightarrow> filesystem \<Rightarrow> (item_shape \<times> (string \<Rightarrow> bool)) list" where
  "shape_tests E f =
     [(Archive, is_archive_file E), (Directory, os_path_isdir f), (SourceFile, is_python_file E)]"

fun first_match :: "(item_shape \<times> (string \<Rightarrow> bool)) list \<Rightarrow> string \<Rightarrow> item_shape" where
  "first_match [] item_name = ModuleName"
| "first_match ((shape, test) # rest) item_name =
     (if test item_name then shape else first_match rest item_name)"

text \<open>What the batch import does with an item of a given shape.\<close>

fun import_as ::
  "externals \<Rightarrow> item_shape \<Rightarrow> string \<Rightarrow> string option \<Rightarrow> string option \<Rightarrow> world
     \<Rightarrow> (error + unit) \<times> world" where
  "import_as E Archive item_name base_dir work_dir =
     and_then (decompress E item_name work_dir) (import_services_from_directory E)"
| "import_as E Directory item_name base_dir work_dir = import_services_from_directory E item_name"
| "import_as E SourceFile item_name base_dir work_dir =
     import_services_from_file E item_name (startswith item_name ''zato'') base_dir"
| "import_as E ModuleName item_name base_dir work_dir =
     import_services_from_module E item_name (startswith item_name ''zato'')"

text \<open>A service whose \<^verbatim>\<open>before_add_to_store\<close> hook raises.\<close>

definition failing_service :: pyobject where
  "failing_service = [''before_add_to_store'' \<mapsto> (\<lambda>w. (Inl (OtherException ''hook failed''), w))]"

text \<open>The flag that goes with the services of one item of the batch.\<close>

definition item_flag :: "externals \<Rightarrow> filesystem \<Rightarrow> string \<Rightarrow> bool" where
  "item_flag E f item_name \<longleftrightarrow>
     startswith item_name ''zato'' \<and> \<not> is_archive_file E item_name \<and> \<not> os_path_isdir f item_name"

text \<open>The batch of the single item \<^verbatim>\<open>svc.py\<close>, relative to \<^verbatim>\<open>/srv/app\<close>.\<close>

definition run_file :: "(error + unit) \<times> world" where
  "run_file = import_services_from_anywhere E0 [''svc.py''] (Some ''/srv/app'') None w0"

text \<open>The batch of the single archive \<^verbatim>\<open>zato-billing.tar.bz2\<close>, unpacked under \<^verbatim>\<open>/var/work\<close>.\<close>

definition run_archive :: "(error + unit) \<times> world" where
  "run_archive = import_services_from_anywhere E0 [''zato-billing.tar.bz2''] None (Some ''/var/work'') w0"

text \<open>The working root with the separator \<^verbatim>\<open>os.path.join\<close> puts after it.\<close>

definition with_sep :: "string \<Rightarrow> string" where
  "with_sep work_dir = (if work_dir = [] \<or> endswith work_dir ''/'' then work_dir else work_dir @ ''/'')"

text \<open>The directory name \<^verbatim>\<open>decompress\<close> builds from the clock reading, the random UUID and
  the base name of the archive.\<close>

definition scratch_dir :: "externals \<Rightarrow> string \<Rightarrow> string \<Rightarrow> world \<Rightarrow> string" where
  "scratch_dir E archive work_dir w =
     with_sep work_dir @ fs_safe_now E (clock w) @ ''-'' @ take 6 (uuid_hex (uuid4 E (entropy w)))
       @ ''/'' @ snd (os_path_split archive)"

text \<open>The names \<^verbatim>\<open>decompress\<close> works with: the directory of the time stamp and the
  random digits under the working root, and the directory of the archive under it.\<close>

definition stamp_dir :: "externals \<Rightarrow> string \<Rightarrow> world \<Rightarrow> string" where
  "stamp_dir E work_dir w =
     with_sep work_dir @ fs_safe_now E (clock w) @ ''-'' @ take 6 (uuid_hex (uuid4 E (entropy w)))"

text \<open>The directory that import creates, the file system after \<^verbatim>\<open>os.makedirs\<close> and the world
  after the archive was unpacked.\<close>

definition dir0 :: string where
  "dir0 = ''/var/work/2012_01_01T00_00_00_000000-abcdef/zato-billing.tar.bz2''"

definition fs_made :: filesystem where
  "fs_made = (fs w0)(''/var'' \<mapsto> Dir, ''/var/work'' \<mapsto> Dir,
                     ''/var/work/2012_01_01T00_00_00_000000-abcdef'' \<mapsto> Dir, dir0 \<mapsto> Dir)"

definition w_unpacked :: world where
  "w_unpacked = w0\<lparr>log_records := [LogRecord DEBUG ''About to import services from:[%s]'' [''zato-billing.tar.bz2'']],
                  entropy := 1, clock := 1,
                  fs := fs_made(dir0 @ ''/svc.py'' \<mapsto> File True src0)\<rparr>"

text \<open>The batch of the single module name \<^verbatim>\<open>zato.server.service.internal.ping\<close>.\<close>

definition run_module :: "(error + unit) \<times> world" where
  "run_module = import_services_from_anywhere E0 [''zato.server.service.internal.ping''] None None w0"

text \<open>The archive \<^verbatim>\<open>zato-billing.tar.bz2\<close> unpacked under the existing directory \<^verbatim>\<open>/srv\<close>.\<close>

definition stamp1 :: string where
  "stamp1 = ''/srv/2012_01_01T00_00_00_000000-abcdef''"

definition dir1 :: string where
  "dir1 = ''/srv/2012_01_01T00_00_00_000000-abcdef/zato-billing.tar.bz2''"








section \<open>Eligibility\<close>

lemma subclass_of_imp_derives: "subclass_of c target \<Longrightarrow> derives_from c target"
proof (induction c target rule: subclass_of.induct)
  case (1 i n bs as target)
  show ?case
  proof (cases "i = class_id target")
    case True
    then show ?thesis by (simp add: derives_from.same)
  next
    case False
    with "1.prems" obtain b where b: "b \<in> set bs" "subclass_of b target" by auto
    with "1.IH" have "derives_from b target" by blast
    with b(1) show ?thesis by (auto intro: derives_from.base)
  qed
qed

lemma derives_imp_subclass_of: "derives_from c target \<Longrightarrow> subclass_of c target"
proof (induction rule: derives_from.induct)
  case (same c target)
  then show ?case by (cases c) simp
next
  case (base b c target)
  then show ?case by (cases c) auto
qed

lemma subclass_of_iff_derives: "subclass_of c target \<longleftrightarrow> derives_from c target"
  using subclass_of_imp_derives derives_imp_subclass_of by blast

text \<open>
  C2. \<^verbatim>\<open>_should_deploy\<close> does not reject every value that is not a class silently. The
  handler of TypeError, whose comment says that it ignores non-class objects passed in to
  \<^verbatim>\<open>issubclass\<close>, formats the item into its log message; for an object whose \<^verbatim>\<open>__str__\<close>
  raises RuntimeError the method raises that RuntimeError, writes no log line and leaves
  the world as it was.
\<close>

theorem should_deploy_raises_for_unprintable_object:
  "issubclass (OtherObj (PyObj NoBases [] (Inl (RuntimeError ''cannot print'')))) (Service E0)
     = Inl (TypeError ''issubclass() arg 1 must be a class'')
   \<and> should_deploy E0 ''badstr'' (OtherObj (PyObj NoBases [] (Inl (RuntimeError ''cannot print'')))) w0
     = (Inl (RuntimeError ''cannot print''), w0)"
  by (simp add: should_deploy_def)

section \<open>Lifecycle hooks\<close>

text \<open>
  Whatever exception of class \<^verbatim>\<open>Exception\<close> the hook raises, the handler fails on the unbound
  name \<^verbatim>\<open>service_name\<close> before it logs: the caller gets a NameError and the log is as the
  hook left it.
\<close>

lemma invoke_hook_hook_raises:
  assumes "obj hook_name = Some hook" "hook w = (Inl e, w')" "is_Exception e"
  shows "invoke_hook obj hook_name w = (Inl (NameError ''global name service_name is not defined''), w')"
  using assms
  by (simp add: invoke_hook_def name_lookup_def invoke_hook_locals_def store_module_names_def)

text \<open>
  C4 on a service whose \<^verbatim>\<open>before_add_to_store\<close> hook raises: \<^verbatim>\<open>_invoke_hook\<close> raises
  NameError to its caller and logs nothing.
\<close>

theorem invoke_hook_raises_NameError:
  "invoke_hook failing_service ''before_add_to_store'' w0 =
     (Inl (NameError ''global name service_name is not defined''), w0)"
  by (simp add: invoke_hook_def failing_service_def name_lookup_def invoke_hook_locals_def
      store_module_names_def)

section \<open>Sequencing and the batch loop\<close>

lemma and_thenE:
  assumes "and_then m f w = (r, w')"
  obtains (fail) e where "m w = (Inl e, w')" "r = Inl e"
        | (ok) a w1 where "m w = (Inr a, w1)" "f a w1 = (r, w')"
  using assms by (auto simp: and_then_def split: prod.splits sum.splits)

lemma and_then_Inr: "m w = (Inr a, w1) \<Longrightarrow> and_then m f w = f a w1"
  by (simp add: and_then_def)

lemma anywhere_append:
  "import_services_from_anywhere E (xs @ ys) b wd w =
     and_then (import_services_from_anywhere E xs b wd)
       (\<lambda>u. import_services_from_anywhere E ys b wd) w"
proof (induction xs arbitrary: w)
  case Nil
  show ?case by (simp add: and_then_def ret_def)
next
  case (Cons x xs)
  show ?case
    by (simp add: Cons.IH and_then_def split: prod.splits sum.splits)
qed

lemma file_missing_raises:
  assumes "absolute_file_name item b = Inr p" "\<not> os_path_exists (fs w) p"
  shows "import_services_from_file E item i b w = (Inl (ValueError (no_such_path_msg p)), w)"
  using assms by (simp add: import_services_from_file_def and_then_def of_result_def raise_def)

lemmas path_defs = startswith_def endswith_def all_slashes_def rstrip_slashes_def os_path_isabs_def
  os_path_split_def os_path_splitext_def normpath_step_def os_path_normpath_def lookup_node.simps
  os_path_exists_def os_path_isdir_def open_read_def getmtime_def os_remove_def os_mkdir_def
  makedirs_split_def absolute_file_name_def no_such_path_msg_def

lemmas step_defs = ret_def raise_def and_then_def of_result_def read_clock_def draw_entropy_def
  update_fs_def services_setitem_def services_getitem_def odb_add_service_def log_msg_def

lemmas store_defs = should_deploy_def get_source_code_info_def source_code_info_body_def
  module_getmtime_def visit_module_item_def visit_module_def imp_load_source_def
  import_services_from_file_def import_services_from_directory_def inspect_getfile_def
  import_services_from_module_def import_item_def decompress_def is_same_def SourceInfo_def
  empty_entry_def

lemmas fixture_defs = E0_def w0_def module0_def Service0_def AdminService0_def MyService_def
  Hidden_def helper_def

text \<open>
  C1 (amended). \<^verbatim>\<open>import_services_from_anywhere\<close> has no handler around the loop body.
  When the items before \<open>item_name\<close> were imported and \<open>item_name\<close> is dispatched as a
  source file whose resolved path does not exist, the ValueError of
  \<^verbatim>\<open>import_services_from_file\<close> leaves the batch call, and the world is the one the earlier
  items produced plus the debug line of the failing item: the items after it are never
  looked at.
\<close>

theorem batch_stops_at_missing_file:
  assumes "import_services_from_anywhere E pre b wd w = (Inr (), w1)"
    and "\<not> is_archive_file E item" "\<not> os_path_isdir (fs w1) item" "is_python_file E item"
    and "absolute_file_name item b = Inr p" "\<not> os_path_exists (fs w1) p"
  shows "import_services_from_anywhere E (pre @ item # post) b wd w =
           (Inl (ValueError (no_such_path_msg p)),
            log_msg DEBUG ''About to import services from:[%s]'' [item] w1)"
proof -
  let ?w2 = "log_msg DEBUG ''About to import services from:[%s]'' [item] w1"
  have fs: "fs ?w2 = fs w1" by (simp add: log_msg_def)
  have "import_item E item b wd ?w2 = (Inl (ValueError (no_such_path_msg p)), ?w2)"
    using assms(2-6) fs by (simp add: import_item_def file_missing_raises)
  then show ?thesis
    using assms(1) by (simp add: anywhere_append and_then_def)
qed

text \<open>
  C1 as stated fails: in the batch \<^verbatim>\<open>['missing.py', 'svc.py']\<close> the first path does not
  exist; the call raises ValueError and registers nothing, although \<^verbatim>\<open>svc.py\<close> alone
  imports and registers \<open>MyService\<close>.
\<close>

theorem batch_aborts_counterexample:
  "fst (import_services_from_anywhere E0 [''missing.py'', ''svc.py''] (Some ''/srv/app'') None w0)
     = Inl (ValueError (no_such_path_msg ''/srv/app/missing.py''))
   \<and> odb_calls (snd (import_services_from_anywhere E0 [''missing.py'', ''svc.py''] (Some ''/srv/app'') None w0)) = []
   \<and> services (snd (import_services_from_anywhere E0 [''missing.py'', ''svc.py''] (Some ''/srv/app'') None w0)) = []
   \<and> fst (import_services_from_anywhere E0 [''svc.py''] (Some ''/srv/app'') None w0) = Inr ()
   \<and> map call_impl_name (odb_calls (snd (import_services_from_anywhere E0 [''svc.py''] (Some ''/srv/app'') None w0)))
       = [''impl.MyService'']"
  by (simp add: path_defs step_defs store_defs fixture_defs)

theorem batch_stops_at_missing_file_witness:
  "import_services_from_anywhere E0 ([] @ ''missing.py'' # [''svc.py'']) (Some ''/srv/app'') None w0 =
     (Inl (ValueError (no_such_path_msg ''/srv/app/missing.py'')),
      log_msg DEBUG ''About to import services from:[%s]'' [''missing.py''] w0)"
proof -
  have pre: "import_services_from_anywhere E0 [] (Some ''/srv/app'') None w0 = (Inr (), w0)"
    by (simp add: ret_def)
  have shape: "\<not> is_archive_file E0 ''missing.py''" "\<not> os_path_isdir (fs w0) ''missing.py''"
      "is_python_file E0 ''missing.py''"
    by (simp_all add: E0_def w0_def path_defs)
  have name: "absolute_file_name ''missing.py'' (Some ''/srv/app'') = Inr ''/srv/app/missing.py''"
    by (simp add: path_defs)
  have missing: "\<not> os_path_exists (fs w0) ''/srv/app/missing.py''"
    by (simp add: w0_def path_defs)
  show ?thesis
    by (rule batch_stops_at_missing_file [OF pre shape name missing])
qed

text \<open>
  C6 (amended). For every item of a batch, \<^verbatim>\<open>import_services_from_anywhere\<close> writes its
  debug line, acts on the first shape that matches in the order archive (decompress, then
  import the new directory as a directory), existing directory, name with a Python source
  suffix, module name, and goes on with the rest of the batch unless that raised. The
  third test is \<^verbatim>\<open>is_python_file\<close> of the name alone: a name with such a suffix is
  imported as a source file whether or not the file exists, and when it does not exist
  the batch raises the ValueError of \<^verbatim>\<open>import_services_from_file\<close>; it is not tried as a
  module name.
\<close>

theorem batch_dispatch_by_first_shape:
  "import_services_from_anywhere E (item_name # items) base_dir work_dir w =
     and_then
       (import_as E (first_match (shape_tests E (fs w)) item_name) item_name base_dir work_dir)
       (\<lambda>u. import_services_from_anywhere E items base_dir work_dir)
       (log_msg DEBUG ''About to import services from:[%s]'' [item_name] w)
   \<and> (first_match (shape_tests E (fs w)) item_name = SourceFile \<longrightarrow>
        absolute_file_name item_name base_dir = Inr p \<longrightarrow> \<not> os_path_exists (fs w) p \<longrightarrow>
          import_services_from_anywhere E (item_name # items) base_dir work_dir w =
            (Inl (ValueError (no_such_path_msg p)),
             log_msg DEBUG ''About to import services from:[%s]'' [item_name] w))"
proof -
  let ?w = "log_msg DEBUG ''About to import services from:[%s]'' [item_name] w"
  have fs: "fs ?w = fs w" by (simp add: log_msg_def)
  have item: "import_item E item_name base_dir work_dir ?w =
      import_as E (first_match (shape_tests E (fs w)) item_name) item_name base_dir work_dir ?w"
    by (simp add: import_item_def shape_tests_def fs)
  have step: "import_services_from_anywhere E (item_name # items) base_dir work_dir w =
     and_then
       (import_as E (first_match (shape_tests E (fs w)) item_name) item_name base_dir work_dir)
       (\<lambda>u. import_services_from_anywhere E items base_dir work_dir) ?w"
    by (simp add: item and_then_def)
  have "import_services_from_anywhere E (item_name # items) base_dir work_dir w =
            (Inl (ValueError (no_such_path_msg p)), ?w)"
    if "first_match (shape_tests E (fs w)) item_name = SourceFile"
      and "absolute_file_name item_name base_dir = Inr p" and "\<not> os_path_exists (fs w) p"
    unfolding step that(1) import_as.simps
    using that(2,3) by (simp add: and_then_def file_missing_raises fs)
  with step show ?thesis by blast
qed

text \<open>
  C6 as stated fails: \<^verbatim>\<open>missing.py\<close> is no archive, no directory and no existing file, so
  the dispatch of the claim takes it for a module name, whose import would raise
  ImportError. The code takes it for a source file, by its suffix, and raises ValueError
  for the path that does not exist.
\<close>

theorem batch_dispatch_counterexample:
  "first_match (claimed_shape_tests E0 (fs w0)) ''missing.py'' = ModuleName
   \<and> first_match (shape_tests E0 (fs w0)) ''missing.py'' = SourceFile
   \<and> fst (import_services_from_anywhere E0 [''missing.py''] (Some ''/srv/app'') None w0)
       = Inl (ValueError (no_such_path_msg ''/srv/app/missing.py''))
   \<and> fst (and_then (import_as E0 (first_match (claimed_shape_tests E0 (fs w0)) ''missing.py'')
                      ''missing.py'' (Some ''/srv/app'') None)
            (\<lambda>u. import_services_from_anywhere E0 [] (Some ''/srv/app'') None)
            (log_msg DEBUG ''About to import services from:[%s]'' [''missing.py''] w0))
       = Inl (ImportError ''missing.py'')"
  by (simp add: claimed_shape_tests_def shape_tests_def path_defs step_defs store_defs fixture_defs)

theorem batch_dispatch_by_first_shape_witness:
  "first_match (shape_tests E0 (fs w0)) ''gone.pyw'' = SourceFile
   \<and> absolute_file_name ''gone.pyw'' (Some ''/srv'') = Inr ''/srv/gone.pyw''
   \<and> \<not> os_path_exists (fs w0) ''/srv/gone.pyw''
   \<and> import_services_from_anywhere E0 [''gone.pyw'', ''svc.py''] (Some ''/srv'') None w0 =
       (Inl (ValueError (no_such_path_msg ''/srv/gone.pyw'')),
        log_msg DEBUG ''About to import services from:[%s]'' [''gone.pyw''] w0)"
proof -
  have shape: "first_match (shape_tests E0 (fs w0)) ''gone.pyw'' = SourceFile"
    by (simp add: shape_tests_def E0_def w0_def path_defs)
  have name: "absolute_file_name ''gone.pyw'' (Some ''/srv'') = Inr ''/srv/gone.pyw''"
    by (simp add: path_defs)
  have missing: "\<not> os_path_exists (fs w0) ''/srv/gone.pyw''"
    by (simp add: w0_def path_defs)
  from batch_dispatch_by_first_shape [of E0 "''gone.pyw''" "[''svc.py'']" "Some ''/srv''" None w0
      "''/srv/gone.pyw''"] shape name missing
  show ?thesis by blast
qed

section \<open>One attribute of a module\<close>

lemma should_deploy_class:
  "should_deploy E name (ClassObj c) w = (Inr (if deployable E c then Some True else None), w)"
  by (simp add: should_deploy_def deployable_def)

lemma visit_module_item_other:
  assumes "visit_module_item E m i loc name (OtherObj obj) w = (r, w')"
  shows "(r = Inr () \<and> (\<exists>l. w' = w\<lparr>log_records := l\<rparr>))
       \<or> ((\<exists>e. r = Inl e) \<and> (w' = w \<or> w' = w\<lparr>clock := Suc (clock w)\<rparr>))"
proof (cases "should_deploy E name (OtherObj obj) w")
  case (Pair d w1)
  then have w1: "w1 = w \<or> (\<exists>l. w1 = w\<lparr>log_records := l\<rparr> \<and> d = Inr None)"
    by (auto simp: should_deploy_def log_msg_def split: sum.splits if_splits)
  show ?thesis
  proof (cases d)
    case (Inl e)
    with Pair have "w1 = w"
      by (auto simp: should_deploy_def log_msg_def split: sum.splits if_splits)
    with assms Pair Inl show ?thesis
      by (auto simp: visit_module_item_def and_then_def)
  next
    case (Inr t)
    show ?thesis
    proof (cases "truthy t")
      case False
      with assms Pair Inr have "r = Inr ()" "w' = w1"
        by (simp_all add: visit_module_item_def and_then_def ret_def)
      moreover have "w = w\<lparr>log_records := log_records w\<rparr>" by simp
      ultimately show ?thesis using w1 by metis
    next
      case True
      with Inr w1 have "w1 = w" by auto
      with assms Pair Inr True show ?thesis
        by (auto simp: visit_module_item_def and_then_def read_clock_def raise_def
            split: if_splits)
    qed
  qed
qed

lemma visit_module_item_skip:
  "\<not> deployable E c \<Longrightarrow> visit_module_item E m i loc name (ClassObj c) w = (Inr (), w)"
  by (simp add: visit_module_item_def should_deploy_class and_then_def ret_def)

lemma update_update_same: "AList.update k v (AList.update k v' al) = AList.update k v al"
  by (induction al) auto

lemma map_of_update_same: "map_of (AList.update k v al) k = Some v"
  by (simp add: update_conv')

lemma get_source_code_info_frame:
  assumes "get_source_code_info E m w = (r, w')"
  shows "w' = w\<lparr>log_records := log_records w'\<rparr>"
  using assms
  by (auto simp: get_source_code_info_def log_msg_def split: prod.splits option.splits if_splits)

lemma module_getmtime_frame: "module_getmtime m w = (r, w') \<Longrightarrow> w' = w"
  by (auto simp: module_getmtime_def split: option.splits)

lemma visit_module_item_deploy:
  assumes "deployable E c"
  shows "visit_module_item E m i loc name (ClassObj c) w =
     (case get_source_code_info E m
             (w\<lparr>clock := Suc (clock w),
                services := AList.update (get_impl_name E c) (the_entry E c loc (clock w) None) (services w)\<rparr>) of
        (Inl e, w2) \<Rightarrow> (Inl e, w2)
      | (Inr si, w2) \<Rightarrow>
          (case module_getmtime m w2 of
             (Inl e, w3) \<Rightarrow> (Inl e, w3)
           | (Inr u, w3) \<Rightarrow>
               (case add_service E (odb_calls w3) (the_call E c i loc (clock w) si) of
                  Inl e \<Rightarrow> (Inl e, w3\<lparr>odb_calls := odb_calls w3 @ [the_call E c i loc (clock w) si]\<rparr>)
                | Inr answer \<Rightarrow>
                    (Inr (), w3\<lparr>odb_calls := odb_calls w3 @ [the_call E c i loc (clock w) si],
                               services := AList.update (get_impl_name E c)
                                 (the_entry E c loc (clock w) (Some (snd answer))) (services w3)\<rparr>))))"
proof -
  let ?k = "get_impl_name E c"
  let ?w1 = "w\<lparr>clock := Suc (clock w),
                services := AList.update ?k (the_entry E c loc (clock w) None) (services w)\<rparr>"
  have start: "visit_module_item E m i loc name (ClassObj c) w =
      and_then (get_source_code_info E m) (\<lambda>si.
      and_then (module_getmtime m) (\<lambda>last_mod.
      and_then (odb_add_service E (the_call E c i loc (clock w) si)) (\<lambda>answer.
      and_then (services_getitem ?k) (\<lambda>v.
      services_setitem ?k (v\<lparr>is_active := Some (snd answer)\<rparr>))))) ?w1"
    using assms
    by (simp add: visit_module_item_def should_deploy_class and_then_def read_clock_def
        services_setitem_def services_getitem_def map_of_update_same update_update_same
        the_call_def the_entry_def empty_entry_def)
  show ?thesis
  proof (cases "get_source_code_info E m ?w1")
    case (Pair r w2)
    note gs = this
    from get_source_code_info_frame [OF gs] have s2: "services w2 = services ?w1"
      by (metis world.select_convs(1) world.surjective world.update_convs(3))
    show ?thesis
    proof (cases r)
      case (Inl e)
      with gs show ?thesis by (simp add: start and_then_def)
    next
      case (Inr si)
      show ?thesis
      proof (cases "module_getmtime m w2")
        case (Pair r3 w3)
        note gm = this
        from module_getmtime_frame [OF gm] have w3: "w3 = w2" .
        show ?thesis
        proof (cases r3)
          case (Inl e)
          with gs gm \<open>r = Inr si\<close> show ?thesis by (simp add: start and_then_def)
        next
          case (Inr u)
          with gs gm \<open>r = Inr si\<close> w3 s2 show ?thesis
            by (simp add: start and_then_def odb_add_service_def services_getitem_def
                services_setitem_def map_of_update_same the_entry_def split: sum.splits)
        qed
      qed
    qed
  qed
qed

lemma source_code_info_body_digest: "digest_ok E (snd (source_code_info_body E m f))"
  by (simp add: source_code_info_body_def digest_ok_def SourceInfo_def
      split: option.splits sum.splits)

lemma get_source_code_info_digest:
  assumes "get_source_code_info E m w = (Inr si, w')"
  shows "digest_ok E si"
proof -
  from assms have "si = snd (source_code_info_body E m (fs w))"
    by (auto simp: get_source_code_info_def split: prod.splits option.splits if_splits)
  then show ?thesis by (simp add: source_code_info_body_digest)
qed

lemma visit_module_item_cases:
  assumes "visit_module_item E m i loc name item w = (r, w')"
  obtains
    (skip) "r = Inr ()" "\<And>c. item = ClassObj c \<Longrightarrow> \<not> deployable E c"
      "w' = w\<lparr>log_records := log_records w'\<rparr>"
  | (raised) obj e where "item = OtherObj obj" "r = Inl e"
      "w' = w \<or> w' = w\<lparr>clock := Suc (clock w)\<rparr>"
  | (early) c e where "item = ClassObj c" "deployable E c" "r = Inl e"
      "w' = w\<lparr>clock := Suc (clock w),
              services := AList.update (get_impl_name E c) (the_entry E c loc (clock w) None) (services w),
              log_records := log_records w'\<rparr>"
  | (refused) c e si where "item = ClassObj c" "deployable E c" "r = Inl e"
      "add_service E (odb_calls w) (the_call E c i loc (clock w) si) = Inl e" "digest_ok E si"
      "w' = w\<lparr>clock := Suc (clock w),
              services := AList.update (get_impl_name E c) (the_entry E c loc (clock w) None) (services w),
              odb_calls := odb_calls w @ [the_call E c i loc (clock w) si],
              log_records := log_records w'\<rparr>"
  | (registered) c answer si where "item = ClassObj c" "deployable E c" "r = Inr ()"
      "add_service E (odb_calls w) (the_call E c i loc (clock w) si) = Inr answer" "digest_ok E si"
      "w' = w\<lparr>clock := Suc (clock w),
              services := AList.update (get_impl_name E c)
                            (the_entry E c loc (clock w) (Some (snd answer))) (services w),
              odb_calls := odb_calls w @ [the_call E c i loc (clock w) si],
              log_records := log_records w'\<rparr>"
proof (cases item)
  case (OtherObj obj)
  from visit_module_item_other [OF assms [unfolded OtherObj]]
  consider "r = Inr ()" "\<exists>l. w' = w\<lparr>log_records := l\<rparr>"
    | e where "r = Inl e" "w' = w \<or> w' = w\<lparr>clock := Suc (clock w)\<rparr>" by blast
  then show ?thesis
  proof cases
    case 1
    from 1(2) have "w' = w\<lparr>log_records := log_records w'\<rparr>" by auto
    with OtherObj 1(1) show ?thesis by (auto intro: skip)
  next
    case 2
    with OtherObj show ?thesis by (auto intro: raised)
  qed
next
  case (ClassObj c)
  show ?thesis
  proof (cases "deployable E c")
    case False
    with assms ClassObj have "r = Inr ()" "w' = w\<lparr>log_records := log_records w'\<rparr>"
      by (auto simp: visit_module_item_skip)
    with ClassObj False show ?thesis by (auto intro: skip)
  next
    case True
    let ?k = "get_impl_name E c"
    let ?w1 = "w\<lparr>clock := Suc (clock w),
                services := AList.update ?k (the_entry E c loc (clock w) None) (services w)\<rparr>"
    obtain r2 w2 where gs: "get_source_code_info E m ?w1 = (r2, w2)" by (cases "get_source_code_info E m ?w1")
    from get_source_code_info_frame [OF gs] obtain l2 where w2: "w2 = ?w1\<lparr>log_records := l2\<rparr>"
      by blast
    obtain r3 w3 where gm: "module_getmtime m w2 = (r3, w3)" by (cases "module_getmtime m w2")
    from module_getmtime_frame [OF gm] have w3: "w3 = w2" .
    note nf = assms [unfolded ClassObj visit_module_item_deploy [OF True] gs]
    show ?thesis
    proof (cases r2)
      case (Inl e)
      with nf have "r = Inl e" "w' = w2" by auto
      with w2 have "w' = w\<lparr>clock := Suc (clock w),
              services := AList.update ?k (the_entry E c loc (clock w) None) (services w),
              log_records := log_records w'\<rparr>" by simp
      with ClassObj True \<open>r = Inl e\<close> show ?thesis by (rule early)
    next
      case (Inr si)
      note si = this
      from gs si have dg: "digest_ok E si" by (auto intro: get_source_code_info_digest)
      show ?thesis
      proof (cases r3)
        case (Inl e)
        with nf si gm w3 have "r = Inl e" "w' = w2" by auto
        with w2 have "w' = w\<lparr>clock := Suc (clock w),
              services := AList.update ?k (the_entry E c loc (clock w) None) (services w),
              log_records := log_records w'\<rparr>" by simp
        with ClassObj True \<open>r = Inl e\<close> show ?thesis by (rule early)
      next
        case (Inr u)
        note u = this
        have oc: "odb_calls w2 = odb_calls w" and sv: "services w2 = services ?w1"
          by (simp_all add: w2)
        show ?thesis
        proof (cases "add_service E (odb_calls w) (the_call E c i loc (clock w) si)")
          case (Inl e)
          with nf si gm w3 u oc have "r = Inl e"
            "w' = w2\<lparr>odb_calls := odb_calls w @ [the_call E c i loc (clock w) si]\<rparr>" by auto
          with w2 have "w' = w\<lparr>clock := Suc (clock w),
              services := AList.update ?k (the_entry E c loc (clock w) None) (services w),
              odb_calls := odb_calls w @ [the_call E c i loc (clock w) si],
              log_records := log_records w'\<rparr>" by simp
          with ClassObj True \<open>r = Inl e\<close> Inl dg show ?thesis by (rule refused)
        next
          case (Inr answer)
          with nf si gm w3 u oc sv have "r = Inr ()"
            "w' = w2\<lparr>odb_calls := odb_calls w @ [the_call E c i loc (clock w) si],
                     services := AList.update ?k (the_entry E c loc (clock w) (Some (snd answer)))
                       (AList.update ?k (the_entry E c loc (clock w) None) (services w))\<rparr>" by auto
          with w2 have "w' = w\<lparr>clock := Suc (clock w),
              services := AList.update ?k (the_entry E c loc (clock w) (Some (snd answer))) (services w),
              odb_calls := odb_calls w @ [the_call E c i loc (clock w) si],
              log_records := log_records w'\<rparr>" by (simp add: update_update_same)
          with ClassObj True \<open>r = Inr ()\<close> Inr dg show ?thesis by (rule registered)
        qed
      qed
    qed
  qed
qed





section \<open>What an import does to the registry and to the durable store\<close>

lemma grows_refl: "grows P w w"
  by (simp add: grows_def)

lemma grows_trans: "grows P a b \<Longrightarrow> grows P b c \<Longrightarrow> grows P a c"
  unfolding grows_def by (elim conjE exE) (auto simp: list_all_append)

lemma grows_mono: "grows P w w' \<Longrightarrow> (\<And>c. P c \<Longrightarrow> Q c) \<Longrightarrow> grows Q w w'"
  unfolding grows_def by (auto simp: list_all_iff)

lemma grows_and_then:
  assumes "and_then m f w = (r, w')"
    and "\<And>r1 w1. m w = (r1, w1) \<Longrightarrow> grows P w w1"
    and "\<And>a w1 r2 w2. f a w1 = (r2, w2) \<Longrightarrow> grows P w1 w2"
  shows "grows P w w'"
  using assms(1)
proof (cases rule: and_thenE)
  case (fail e)
  then show ?thesis using assms(2) by blast
next
  case (ok a w1)
  then show ?thesis using assms(2,3) grows_trans by blast
qed

lemma set_keys_update: "fst ` set (AList.update k v al) = insert k (fst ` set al)"
  by (simp add: dom_update)

lemma grows_visit_module_item:
  assumes "visit_module_item E m i loc name item w = (r, w')"
  shows "grows (\<lambda>c. call_is_internal c = i \<and> digest_ok E (call_source_info c)) w w'"
  using assms
proof (cases rule: visit_module_item_cases)
  case skip
  show ?thesis by (subst skip(3)) (simp add: grows_def)
next
  case (raised obj e)
  then show ?thesis by (auto simp: grows_def)
next
  case (early c e)
  show ?thesis
    by (subst early(4)) (auto simp: grows_def set_keys_update distinct_update)
next
  case (refused c e si)
  show ?thesis
    by (subst refused(6)) (auto simp: grows_def set_keys_update distinct_update the_call_def refused(5))
next
  case (registered c answer si)
  show ?thesis
    by (subst registered(6)) (auto simp: grows_def set_keys_update distinct_update the_call_def registered(5))
qed


lemma grows_visit_module_loop:
  assumes "visit_module_loop E m i loc attrs w = (r, w')"
  shows "grows (\<lambda>c. call_is_internal c = i \<and> digest_ok E (call_source_info c)) w w'"
  using assms
proof (induction attrs arbitrary: w r w')
  case Nil
  then show ?case by (simp add: ret_def grows_refl)
next
  case (Cons a attrs)
  obtain name item where a: "a = (name, item)" by (cases a)
  from Cons.prems show ?case
    unfolding a visit_module_loop.simps
    by (rule grows_and_then) (auto intro: grows_visit_module_item Cons.IH)
qed


lemma import_services_from_file_cases:
  assumes "import_services_from_file E file_name i b w = (r, w')"
  obtains
    (unresolved) e where "r = Inl e" "w' = w\<lparr>fs := fs w'\<rparr>"
  | (visited) p f' bs m where "absolute_file_name file_name b = Inr p" "os_path_exists (fs w) p"
      "remove_bytecode p [''c'', ''o''] (fs w) = (None, f')" "open_read f' p = Inr bs"
      "load_source E (fst (os_path_splitext (snd (os_path_split p)))) p bs = Inr m"
      "visit_module E m i p (w\<lparr>fs := f'\<rparr>) = (r, w')"
  using assms unfolding import_services_from_file_def
proof (cases rule: and_thenE)
  case (fail e)
  then have "r = Inl e" "w' = w\<lparr>fs := fs w'\<rparr>" by (auto simp: of_result_def)
  then show ?thesis by (rule unresolved)
next
  case (ok p w1)
  then have p: "absolute_file_name file_name b = Inr p" and w1: "w1 = w"
    by (auto simp: of_result_def)
  from ok(2) show ?thesis
  proof (cases rule: and_thenE)
    case (fail e)
    then have "r = Inl e" "w' = w\<lparr>fs := fs w'\<rparr>"
      by (auto simp: w1 raise_def ret_def split: if_splits)
    then show ?thesis by (rule unresolved)
  next
    case (ok u w2)
    then have ex: "os_path_exists (fs w) p" and w2: "w2 = w"
      by (auto simp: w1 raise_def ret_def split: if_splits)
    from ok(2) show ?thesis
    proof (cases rule: and_thenE)
      case (fail e)
      then have "r = Inl e" "w' = w\<lparr>fs := fs w'\<rparr>"
        by (auto simp: w2 update_fs_def split: prod.splits option.splits)
      then show ?thesis by (rule unresolved)
    next
      case (ok u' w3)
      then obtain f' where rb: "remove_bytecode p [''c'', ''o''] (fs w) = (None, f')"
        and w3: "w3 = w\<lparr>fs := f'\<rparr>"
        by (auto simp: w2 update_fs_def split: prod.splits option.splits)
      from ok(2) show ?thesis
      proof (cases rule: and_thenE)
        case (fail e)
        then have "r = Inl e" "w' = w\<lparr>fs := fs w'\<rparr>"
          by (auto simp: w3 imp_load_source_def split: sum.splits)
        then show ?thesis by (rule unresolved)
      next
        case (ok m w4)
        then obtain bs where "open_read f' p = Inr bs"
          "load_source E (fst (os_path_splitext (snd (os_path_split p)))) p bs = Inr m" "w4 = w3"
          by (auto simp: w3 imp_load_source_def split: sum.splits)
        with p ex rb ok(2) w3 show ?thesis by (auto intro: visited)
      qed
    qed
  qed
qed

lemma grows_visit_module:
  assumes "visit_module E m i loc w = (r, w')"
  shows "grows (\<lambda>c. call_is_internal c = i \<and> digest_ok E (call_source_info c)) w w'"
  using assms by (simp add: visit_module_def grows_visit_module_loop)

lemma grows_import_services_from_file:
  assumes "import_services_from_file E file_name i b w = (r, w')"
  shows "grows (\<lambda>c. call_is_internal c = i \<and> digest_ok E (call_source_info c)) w w'"
  using assms
proof (cases rule: import_services_from_file_cases)
  case (unresolved e)
  show ?thesis by (subst unresolved(2)) (simp add: grows_def)
next
  case (visited p f' bs m)
  from grows_visit_module [OF visited(6)] show ?thesis by (simp add: grows_def)
qed

lemma grows_import_services_from_paths:
  assumes "import_services_from_paths E paths w = (r, w')"
  shows "grows (\<lambda>c. \<not> call_is_internal c \<and> digest_ok E (call_source_info c)) w w'"
  using assms
proof (induction paths arbitrary: w r w')
  case Nil
  then show ?case by (simp add: ret_def grows_refl)
next
  case (Cons p paths)
  from Cons.prems show ?case
    unfolding import_services_from_paths.simps
  proof (rule grows_and_then)
    fix r1 w1
    assume "import_services_from_file E p False None w = (r1, w1)"
    from grows_import_services_from_file [OF this]
    show "grows (\<lambda>c. \<not> call_is_internal c \<and> digest_ok E (call_source_info c)) w w1" by simp
  next
    fix a w1 r2 w2
    assume "import_services_from_paths E paths w1 = (r2, w2)"
    then show "grows (\<lambda>c. \<not> call_is_internal c \<and> digest_ok E (call_source_info c)) w1 w2"
      by (rule Cons.IH)
  qed
qed

lemma grows_ret: "ret x w = (r, w') \<Longrightarrow> grows P w w'"
  by (auto simp: ret_def grows_refl)

lemma grows_raise: "raise e w = (r, w') \<Longrightarrow> grows P w w'"
  by (auto simp: raise_def grows_refl)

lemma grows_of_result: "of_result x w = (r, w') \<Longrightarrow> grows P w w'"
  by (auto simp: of_result_def grows_refl)

lemma grows_read_clock: "read_clock w = (r, w') \<Longrightarrow> grows P w w'"
  by (auto simp: read_clock_def grows_def)

lemma grows_draw_entropy: "draw_entropy w = (r, w') \<Longrightarrow> grows P w w'"
  by (auto simp: draw_entropy_def grows_def)

lemma grows_update_fs: "update_fs g w = (r, w') \<Longrightarrow> grows P w w'"
  by (auto simp: update_fs_def grows_def split: prod.splits option.splits)

lemma grows_import_services_from_directory:
  assumes "import_services_from_directory E dir_name w = (r, w')"
  shows "grows (\<lambda>c. \<not> call_is_internal c \<and> digest_ok E (call_source_info c)) w w'"
  using assms unfolding import_services_from_directory_def
proof (rule grows_and_then)
  fix r1 w1
  assume "import_services_from_paths E (fst (visit_py_source_from_distribution E (fs w) dir_name)) w = (r1, w1)"
  then show "grows (\<lambda>c. \<not> call_is_internal c \<and> digest_ok E (call_source_info c)) w w1"
    by (rule grows_import_services_from_paths)
next
  fix a :: unit and w1 r2 w2
  assume "(case snd (visit_py_source_from_distribution E (fs w) dir_name) of
             None \<Rightarrow> ret () | Some e \<Rightarrow> raise e) w1 = (r2, w2)"
  then show "grows (\<lambda>c. \<not> call_is_internal c \<and> digest_ok E (call_source_info c)) w1 w2"
    by (cases "snd (visit_py_source_from_distribution E (fs w) dir_name)")
       (auto dest: grows_ret grows_raise)
qed

lemma grows_import_services_from_module:
  assumes "import_services_from_module E name i w = (r, w')"
  shows "grows (\<lambda>c. call_is_internal c = i \<and> digest_ok E (call_source_info c)) w w'"
  using assms unfolding import_services_from_module_def
proof (rule grows_and_then)
  fix r1 :: "error + pymodule" and w1
  assume "(import_module E name (fs w), w) = (r1, w1)"
  then show "grows (\<lambda>c. call_is_internal c = i \<and> digest_ok E (call_source_info c)) w w1"
    by (auto intro: grows_refl)
next
  fix m w1 r2 w2
  assume "and_then (of_result (inspect_getfile m)) (\<lambda>fs_location. visit_module E m i fs_location) w1 = (r2, w2)"
  then show "grows (\<lambda>c. call_is_internal c = i \<and> digest_ok E (call_source_info c)) w1 w2"
    by (rule grows_and_then) (auto dest: grows_of_result grows_visit_module)
qed

lemma grows_decompress:
  assumes "decompress E archive work_dir w = (r, w')"
  shows "grows P w w'"
  using assms unfolding decompress_def
proof (rule grows_and_then)
  fix r1 w1 assume "draw_entropy w = (r1, w1)"
  then show "grows P w w1" by (rule grows_draw_entropy)
next
  fix n w1 r2 w2
  assume "and_then read_clock (\<lambda>t.
     and_then (of_result (os_path_join work_dir
                 [fs_safe_now E t @ ''-'' @ take 6 (uuid_hex (uuid4 E n)),
                  snd (os_path_split archive)])) (\<lambda>joined.
       case joined of
         None \<Rightarrow> raise (AttributeError ''rfind'')
       | Some dir_name \<Rightarrow>
           and_then (update_fs (\<lambda>f. os_makedirs f dir_name)) (\<lambda>u.
           and_then (update_fs (util_decompress E archive dir_name)) (\<lambda>u.
           ret dir_name)))) w1 = (r2, w2)"
  then show "grows P w1 w2"
  proof (rule grows_and_then)
    fix r1 w1' assume "read_clock w1 = (r1, w1')"
    then show "grows P w1 w1'" by (rule grows_read_clock)
  next
    fix t w3 r4 w4
    assume "and_then (of_result (os_path_join work_dir
                 [fs_safe_now E t @ ''-'' @ take 6 (uuid_hex (uuid4 E n)),
                  snd (os_path_split archive)])) (\<lambda>joined.
       case joined of
         None \<Rightarrow> raise (AttributeError ''rfind'')
       | Some dir_name \<Rightarrow>
           and_then (update_fs (\<lambda>f. os_makedirs f dir_name)) (\<lambda>u.
           and_then (update_fs (util_decompress E archive dir_name)) (\<lambda>u.
           ret dir_name))) w3 = (r4, w4)"
    then show "grows P w3 w4"
    proof (rule grows_and_then)
      fix r5 w5
      assume "of_result (os_path_join work_dir
                 [fs_safe_now E t @ ''-'' @ take 6 (uuid_hex (uuid4 E n)),
                  snd (os_path_split archive)]) w3 = (r5, w5)"
      then show "grows P w3 w5" by (rule grows_of_result)
    next
      fix joined :: "string option" and w5 r6 w6
      assume run: "(case joined of
         None \<Rightarrow> raise (AttributeError ''rfind'')
       | Some dir_name \<Rightarrow>
           and_then (update_fs (\<lambda>f. os_makedirs f dir_name)) (\<lambda>u.
           and_then (update_fs (util_decompress E archive dir_name)) (\<lambda>u.
           ret dir_name))) w5 = (r6, w6)"
      show "grows P w5 w6"
      proof (cases joined)
        case None
        with run show ?thesis by (auto dest: grows_raise)
      next
        case (Some dir_name)
        with run have "and_then (update_fs (\<lambda>f. os_makedirs f dir_name)) (\<lambda>u.
           and_then (update_fs (util_decompress E archive dir_name)) (\<lambda>u.
           ret dir_name)) w5 = (r6, w6)" by simp
        then show ?thesis
        proof (rule grows_and_then)
          fix r7 w7 assume "update_fs (\<lambda>f. os_makedirs f dir_name) w5 = (r7, w7)"
          then show "grows P w5 w7" by (rule grows_update_fs)
        next
          fix u :: unit and w7 r8 w8
          assume "and_then (update_fs (util_decompress E archive dir_name)) (\<lambda>u. ret dir_name) w7 = (r8, w8)"
          then show "grows P w7 w8"
            by (rule grows_and_then) (auto dest: grows_update_fs grows_ret)
        qed
      qed
    qed
  qed
qed

lemma grows_import_item:
  assumes "import_item E item_name b wd w = (r, w')"
  shows "grows (\<lambda>c. call_is_internal c = item_flag E (fs w) item_name \<and> digest_ok E (call_source_info c)) w w'"
proof (cases "is_archive_file E item_name")
  case True
  with assms have "and_then (decompress E item_name wd) (import_services_from_directory E) w = (r, w')"
    by (simp add: import_item_def)
  then have "grows (\<lambda>c. \<not> call_is_internal c \<and> digest_ok E (call_source_info c)) w w'"
    by (rule grows_and_then) (auto intro: grows_decompress grows_import_services_from_directory)
  with True show ?thesis by (simp add: item_flag_def)
next
  case False
  note not_archive = this
  show ?thesis
  proof (cases "os_path_isdir (fs w) item_name")
    case True
    with assms not_archive show ?thesis
      by (auto simp: import_item_def item_flag_def dest: grows_import_services_from_directory)
  next
    case False
    with assms not_archive show ?thesis
      by (auto simp: import_item_def item_flag_def split: if_splits
          dest: grows_import_services_from_file grows_import_services_from_module)
  qed
qed

lemma grows_import_services_from_anywhere:
  assumes "import_services_from_anywhere E items b wd w = (r, w')"
  shows "grows (\<lambda>c. digest_ok E (call_source_info c)) w w'"
  using assms
proof (induction items arbitrary: w r w')
  case Nil
  then show ?case by (simp add: ret_def grows_refl)
next
  case (Cons item_name items)
  from Cons.prems show ?case
    unfolding import_services_from_anywhere.simps
  proof (rule grows_and_then)
    fix r1 w1
    let ?w = "log_msg DEBUG ''About to import services from:[%s]'' [item_name] w"
    assume "import_item E item_name b wd ?w = (r1, w1)"
    from grows_import_item [OF this] have "grows (\<lambda>c. digest_ok E (call_source_info c)) ?w w1"
      by (rule grows_mono) simp
    then show "grows (\<lambda>c. digest_ok E (call_source_info c)) w w1"
      by (simp add: grows_def log_msg_def)
  next
    fix a w1 r2 w2
    assume "import_services_from_anywhere E items b wd w1 = (r2, w2)"
    then show "grows (\<lambda>c. digest_ok E (call_source_info c)) w1 w2" by (rule Cons.IH)
  qed
qed

lemma grows_new_calls: "grows P w w' \<Longrightarrow> call \<in> set (new_calls w w') \<Longrightarrow> P call"
  by (auto simp: grows_def new_calls_def list_all_iff)

text \<open>
  C3. Whatever a batch import does, every call it makes to the durable store whose
  provenance record holds a digest holds the bytes too, the digest is
  \<^verbatim>\<open>sha256(...).hexdigest()\<close> of exactly these bytes, and the algorithm name recorded
  with it is \<^verbatim>\<open>'SHA-256'\<close>.
\<close>

theorem digest_of_recorded_bytes:
  assumes "import_services_from_anywhere E items b wd w = (r, w')"
    and "call \<in> set (new_calls w w')"
    and "hash (call_source_info call) = Some h"
  shows "\<exists>bs. source (call_source_info call) = Some bs \<and> h = sha256_hexdigest E bs
           \<and> hash_method (call_source_info call) = Some ''SHA-256''"
proof -
  from grows_import_services_from_anywhere [OF assms(1)] assms(2)
  have "digest_ok E (call_source_info call)" by (rule grows_new_calls)
  with assms(3) show ?thesis by (auto simp: digest_ok_def split: option.splits)
qed

lemma run_file_value:
  "fst run_file = Inr ()"
  "odb_calls (snd run_file) =
     [the_call E0 MyService False ''/srv/app/svc.py'' 0
        \<lparr>source = Some src0, path = Some ''/srv/app/svc.py'',
         hash = Some (sha256_hexdigest E0 src0), hash_method = Some ''SHA-256''\<rparr>]"
  by (simp_all add: run_file_def the_call_def path_defs step_defs store_defs fixture_defs)

theorem digest_of_recorded_bytes_witness:
  "\<exists>bs. source (call_source_info (hd (odb_calls (snd run_file)))) = Some bs
     \<and> sha256_hexdigest E0 src0 = sha256_hexdigest E0 bs
     \<and> hash_method (call_source_info (hd (odb_calls (snd run_file)))) = Some ''SHA-256''"
proof -
  have run: "import_services_from_anywhere E0 [''svc.py''] (Some ''/srv/app'') None w0
               = (fst run_file, snd run_file)"
    by (simp add: run_file_def)
  have mem: "hd (odb_calls (snd run_file)) \<in> set (new_calls w0 (snd run_file))"
    by (simp add: run_file_value new_calls_def w0_def)
  have h: "hash (call_source_info (hd (odb_calls (snd run_file)))) = Some (sha256_hexdigest E0 src0)"
    by (simp add: run_file_value the_call_def)
  show ?thesis
    by (rule digest_of_recorded_bytes [OF run mem h])
qed

text \<open>
  C9 (amended). The flag passed to the durable store for the services of one item is true
  exactly when the item's name starts with \<^verbatim>\<open>zato\<close> and the item is imported as a single
  file or as a module. For an archive or a directory the flag is false whatever the name:
  \<^verbatim>\<open>import_services_from_directory\<close> passes the constant \<^verbatim>\<open>False\<close> for every file it finds.
\<close>

theorem internal_flag_of_item:
  assumes "import_services_from_anywhere E [item_name] b wd w = (r, w')"
    and "call \<in> set (new_calls w w')"
  shows "call_is_internal call \<longleftrightarrow>
           startswith item_name ''zato'' \<and> \<not> is_archive_file E item_name
             \<and> \<not> os_path_isdir (fs w) item_name"
proof -
  let ?w = "log_msg DEBUG ''About to import services from:[%s]'' [item_name] w"
  obtain r1 w1 where item: "import_item E item_name b wd ?w = (r1, w1)"
    by (cases "import_item E item_name b wd ?w")
  with assms(1) have w': "w' = w1"
    by (auto simp: and_then_def ret_def split: sum.splits)
  have "new_calls w w' = new_calls ?w w1"
    by (simp add: w' new_calls_def log_msg_def)
  with grows_new_calls [OF grows_import_item [OF item]] assms(2)
  have "call_is_internal call = item_flag E (fs ?w) item_name" by simp
  then show ?thesis by (simp add: item_flag_def log_msg_def)
qed

section \<open>Archive extraction\<close>

lemma hex_digit_in: "hex_digit n \<in> set ''0123456789abcdef''"
  unfolding hex_digit_def by (rule nth_mem) simp

lemma hex_digits_numeral:
  "hex_digits (numeral k) n = hex_digits (pred_numeral k) (n div 16) @ [hex_digit n]"
  by (simp only: numeral_eq_Suc [of k] hex_digits.simps)

lemma length_hex_digits: "length (hex_digits k n) = k"
  by (induction k arbitrary: n) auto

lemma set_hex_digits: "set (hex_digits k n) \<subseteq> set ''0123456789abcdef''"
proof (induction k arbitrary: n)
  case 0
  show ?case by simp
next
  case (Suc k)
  have "hex_digit n \<in> set ''0123456789abcdef''" by (rule hex_digit_in)
  with Suc [of "n div 16"] show ?case by auto
qed

lemma length_rand: "length (take 6 (uuid_hex n)) = 6"
  by (simp add: uuid_hex_def length_hex_digits)

lemma set_rand: "set (take 6 (uuid_hex n)) \<subseteq> set ''0123456789abcdef''"
  using set_take_subset [of 6 "uuid_hex n"] set_hex_digits [of 32 n]
  by (auto simp: uuid_hex_def)

lemma snd_os_path_split_no_slash: "CHR ''/'' \<notin> set (snd (os_path_split p))"
  using set_takeWhileD [of "CHR ''/''" "\<lambda>c. c \<noteq> CHR ''/''" "rev p"]
  by (auto simp: os_path_split_def Let_def)

lemma endswith_slash: "endswith s ''/'' \<longleftrightarrow> s \<noteq> [] \<and> last s = CHR ''/''"
  by (cases s rule: rev_cases) (auto simp: endswith_def)

lemma not_startswith_slash: "CHR ''/'' \<notin> set s \<Longrightarrow> \<not> startswith s ''/''"
  by (cases s) (auto simp: startswith_def)

lemma os_path_join_two:
  assumes "\<not> startswith a ''/''" "\<not> startswith b ''/''" "a \<noteq> []" "last a \<noteq> CHR ''/''"
  shows "os_path_join (Some work_dir) [a, b] = Inr (Some (with_sep work_dir @ a @ ''/'' @ b))"
  using assms by (simp add: with_sep_def endswith_slash)

lemma decompress_join:
  assumes "CHR ''/'' \<notin> set (fs_safe_now E t)"
  shows "os_path_join (Some work_dir)
           [fs_safe_now E t @ ''-'' @ take 6 (uuid_hex (uuid4 E n)), snd (os_path_split archive)]
         = Inr (Some (with_sep work_dir @ fs_safe_now E t @ ''-'' @ take 6 (uuid_hex (uuid4 E n))
                        @ ''/'' @ snd (os_path_split archive)))"
proof -
  let ?rand = "take 6 (uuid_hex (uuid4 E n))"
  let ?a = "fs_safe_now E t @ ''-'' @ ?rand"
  have rand: "?rand \<noteq> []" using length_rand [of "uuid4 E n"] by auto
  have "last ?rand \<in> set ''0123456789abcdef''"
    using rand set_rand [of "uuid4 E n"] last_in_set [of ?rand] by blast
  then have la: "last ?a \<noteq> CHR ''/''" using rand by auto
  have "CHR ''/'' \<notin> set ?a" using assms set_rand [of "uuid4 E n"] by auto
  then have sa: "\<not> startswith ?a ''/''" by (rule not_startswith_slash)
  have sb: "\<not> startswith (snd (os_path_split archive)) ''/''"
    by (rule not_startswith_slash) (rule snd_os_path_split_no_slash)
  have "os_path_join (Some work_dir) [?a, snd (os_path_split archive)]
          = Inr (Some (with_sep work_dir @ ?a @ ''/'' @ snd (os_path_split archive)))"
    by (rule os_path_join_two [OF sa sb _ la]) simp
  then show ?thesis by simp
qed

lemma decompress_normal_form:
  assumes "CHR ''/'' \<notin> set (fs_safe_now E (clock w))"
  shows "decompress E archive (Some work_dir) w =
     (case os_makedirs (fs w) (scratch_dir E archive work_dir w) of
        (Some e, f') \<Rightarrow> (Inl e, w\<lparr>entropy := Suc (entropy w), clock := Suc (clock w), fs := f'\<rparr>)
      | (None, f') \<Rightarrow>
          (case util_decompress E archive (scratch_dir E archive work_dir w) f' of
             (Some e, f'') \<Rightarrow> (Inl e, w\<lparr>entropy := Suc (entropy w), clock := Suc (clock w), fs := f''\<rparr>)
           | (None, f'') \<Rightarrow>
               (Inr (scratch_dir E archive work_dir w),
                w\<lparr>entropy := Suc (entropy w), clock := Suc (clock w), fs := f''\<rparr>)))"
proof -
  let ?w1 = "w\<lparr>entropy := Suc (entropy w)\<rparr>"
  let ?w2 = "?w1\<lparr>clock := Suc (clock ?w1)\<rparr>"
  let ?dir = "scratch_dir E archive work_dir w"
  have 1: "draw_entropy w = (Inr (entropy w), ?w1)" by (simp add: draw_entropy_def)
  have 2: "read_clock ?w1 = (Inr (clock ?w1), ?w2)" by (simp only: read_clock_def)
  have c: "clock ?w1 = clock w" by simp
  let ?j = "os_path_join (Some work_dir)
              [fs_safe_now E (clock ?w1) @ ''-'' @ take 6 (uuid_hex (uuid4 E (entropy w))),
               snd (os_path_split archive)]"
  have 3: "of_result ?j ?w2 = (Inr (Some ?dir), ?w2)"
    unfolding c of_result_def scratch_dir_def by (simp only: decompress_join [OF assms])
  have "decompress E archive (Some work_dir) w =
          and_then (update_fs (\<lambda>f. os_makedirs f ?dir)) (\<lambda>u.
          and_then (update_fs (util_decompress E archive ?dir)) (\<lambda>u. ret ?dir)) ?w2"
    unfolding decompress_def
    by (simp only: and_then_Inr [where m = draw_entropy and w = w, OF 1]
        and_then_Inr [where m = read_clock and w = ?w1, OF 2]
        and_then_Inr [where m = "of_result ?j" and w = ?w2, OF 3] option.case)
  then show ?thesis
    by (simp add: and_then_def update_fs_def ret_def split: prod.splits option.splits)
qed

lemma snd_os_path_split_Nil: "snd (os_path_split p) = [] \<longleftrightarrow> p = [] \<or> last p = CHR ''/''"
proof (cases p rule: rev_cases)
  case Nil
  then show ?thesis by (simp add: os_path_split_def)
next
  case (snoc xs x)
  then show ?thesis by (simp add: os_path_split_def Let_def)
qed

lemma rstrip_slashes_id: "p = [] \<or> last p \<noteq> CHR ''/'' \<Longrightarrow> rstrip_slashes p = p"
  by (cases p rule: rev_cases) (auto simp: rstrip_slashes_def)

lemma rstrip_slashes_Nil: "rstrip_slashes p = [] \<longleftrightarrow> all_slashes p"
  by (auto simp: rstrip_slashes_def all_slashes_def dropWhile_eq_Nil_conv)

lemma last_rstrip_slashes: "rstrip_slashes p \<noteq> [] \<Longrightarrow> last (rstrip_slashes p) \<noteq> CHR ''/''"
proof -
  assume "rstrip_slashes p \<noteq> []"
  then have ne: "dropWhile (\<lambda>c. c = CHR ''/'') (rev p) \<noteq> []" by (simp add: rstrip_slashes_def)
  then have "hd (dropWhile (\<lambda>c. c = CHR ''/'') (rev p)) \<noteq> CHR ''/''"
    using hd_dropWhile [of "\<lambda>c. c = CHR ''/''" "rev p"] by blast
  with ne show ?thesis by (simp add: rstrip_slashes_def last_rev)
qed

lemma rstrip_slashes_append_slash: "rstrip_slashes (x @ ''/'') = rstrip_slashes x"
  by (simp add: rstrip_slashes_def)

text \<open>A path whose last component is a name is looked up as it is written.\<close>

lemma lookup_node_plain:
  assumes "snd (os_path_split p) \<notin> {[], ''.'', ''..''}"
  shows "lookup_node f p = f p"
proof -
  from assms have "snd (os_path_split p) \<noteq> []" by simp
  then have p: "p \<noteq> []" "last p \<noteq> CHR ''/''" by (simp_all add: snd_os_path_split_Nil)
  then have "last p \<in> set p" by simp
  with p(2) have "\<not> all_slashes p" by (auto simp: all_slashes_def)
  with p(1) assms show ?thesis by (subst lookup_node.simps) simp
qed

lemma lookup_node_mono:
  assumes "f \<subseteq>\<^sub>m f'" "lookup_node f p = Some n"
  shows "lookup_node f' p = Some n"
  using assms
proof (induction f p arbitrary: n rule: lookup_node.induct)
  case (1 f p)
  show ?case
  proof (cases "p = [] \<or> all_slashes p")
    case True
    with "1.prems"(2) show ?thesis by (auto simp: lookup_node.simps [of _ p] split: if_splits)
  next
    case False
    note p = this
    show ?thesis
    proof (cases "snd (os_path_split p) \<in> {[], ''.'', ''..''}")
      case False
      with "1.prems"(2) have "f p = Some n" by (simp add: lookup_node_plain)
      with "1.prems"(1) have "f' p = Some n" by (auto simp: map_le_def dom_def)
      with False show ?thesis by (simp add: lookup_node_plain)
    next
      case True
      show ?thesis
      proof (cases "fst (os_path_split p) = []")
        case True
        with p \<open>snd (os_path_split p) \<in> {[], ''.'', ''..''}\<close> "1.prems"(2) show ?thesis
          by (simp add: lookup_node.simps [of _ p])
      next
        case False
        with p True "1.prems"(2) have h: "lookup_node f (fst (os_path_split p)) = Some Dir" "n = Dir"
          by (auto simp: lookup_node.simps [of f p] split: option.splits fsnode.splits)
        from p True False have "lookup_node f' (fst (os_path_split p)) = Some Dir"
          using "1.IH" [OF _ _ _ _ "1.prems"(1) h(1)] by blast
        with p True False h(2) show ?thesis by (simp add: lookup_node.simps [of f' p])
      qed
    qed
  qed
qed

lemma os_path_exists_mono: "f \<subseteq>\<^sub>m f' \<Longrightarrow> os_path_exists f q \<Longrightarrow> os_path_exists f' q"
  using lookup_node_mono [of f f' q] by (auto simp: os_path_exists_def)

lemma os_mkdir_plain:
  assumes "snd (os_path_split p) \<notin> {[], ''.'', ''..''}"
  shows "os_mkdir f p =
     (if os_path_exists f p then (Some (OSError ''EEXIST'' p), f)
      else if fst (os_path_split p) \<noteq> [] \<and> \<not> os_path_isdir f (fst (os_path_split p))
        then (Some (OSError ''ENOENT'' p), f)
      else (None, f(p \<mapsto> Dir)))"
proof -
  from assms have "snd (os_path_split p) \<noteq> []" by simp
  then have p: "p \<noteq> []" "last p \<noteq> CHR ''/''" by (simp_all add: snd_os_path_split_Nil)
  then have "rstrip_slashes p = p" by (simp add: rstrip_slashes_id)
  with p(1) assms show ?thesis by (simp add: os_mkdir_def)
qed

lemma os_mkdir_mono:
  assumes "os_mkdir f p = (r, f')"
  shows "f \<subseteq>\<^sub>m f'"
proof (cases "r = None")
  case False
  with assms have "f' = f" by (auto simp: os_mkdir_def split: if_splits)
  then show ?thesis by simp
next
  case True
  let ?q = "rstrip_slashes p"
  from assms True have p: "p \<noteq> []" "\<not> os_path_exists f p" "\<not> os_path_exists f ?q"
    "snd (os_path_split ?q) \<notin> {''.'', ''..''}" "f' = f(?q \<mapsto> Dir)"
    by (auto simp: os_mkdir_def split: if_splits)
  from p(1,2) have "\<not> all_slashes p"
    by (auto simp: os_path_exists_def lookup_node.simps [of f p])
  then have "?q \<noteq> []" by (simp add: rstrip_slashes_Nil)
  then have "snd (os_path_split ?q) \<noteq> []"
    by (simp add: snd_os_path_split_Nil last_rstrip_slashes)
  with p(4) have "lookup_node f ?q = f ?q" by (simp add: lookup_node_plain)
  with p(3) have "f ?q = None" by (simp add: os_path_exists_def)
  with p(5) show ?thesis by (auto simp: map_le_def)
qed

lemma os_makedirs_mono:
  assumes "os_makedirs f name = (r, f')"
  shows "f \<subseteq>\<^sub>m f'"
  using assms
proof (induction f name arbitrary: r f' rule: os_makedirs.induct)
  case (1 f name)
  let ?h = "fst (makedirs_split name)"
  let ?t = "snd (makedirs_split name)"
  show ?case
  proof (cases "?h \<noteq> [] \<and> ?t \<noteq> [] \<and> \<not> os_path_exists f ?h")
    case False
    then have "os_makedirs f name = os_mkdir f name"
      by (subst os_makedirs.simps) (rule if_not_P)
    with "1.prems" have "os_mkdir f name = (r, f')" by simp
    then show ?thesis by (rule os_mkdir_mono)
  next
    case True
    obtain r1 f1 where rec: "os_makedirs f ?h = (r1, f1)" by (cases "os_makedirs f ?h")
    from True rec have f1: "f \<subseteq>\<^sub>m f1" by (auto intro: "1.IH")
    from True rec "1.prems" have "f' = f1 \<or> os_mkdir f1 name = (r, f')"
      by (auto simp: os_makedirs.simps [of f name] split: option.splits if_splits)
    with f1 show ?thesis by (auto dest: os_mkdir_mono intro: map_le_trans)
  qed
qed

lemma os_mkdir_existing: "os_path_exists f p \<Longrightarrow> fst (os_mkdir f p) \<noteq> None"
  by (simp add: os_mkdir_def)

lemma os_mkdir_created:
  assumes "os_mkdir f p = (None, f')" "snd (os_path_split p) \<notin> {[], ''.'', ''..''}"
  shows "os_path_isdir f' p"
proof -
  from assms have "f' = f(p \<mapsto> Dir)"
    by (auto simp: os_mkdir_plain split: if_splits)
  with assms(2) show ?thesis by (simp add: os_path_isdir_def lookup_node_plain)
qed

text \<open>\<^verbatim>\<open>os.makedirs\<close> raises when the leaf exists, and a call that returns has created it.\<close>

lemma os_makedirs_existing:
  assumes "os_path_exists f name" "snd (makedirs_split name) \<noteq> ''.''"
  shows "fst (os_makedirs f name) \<noteq> None"
proof (cases "fst (makedirs_split name) \<noteq> [] \<and> snd (makedirs_split name) \<noteq> []
                \<and> \<not> os_path_exists f (fst (makedirs_split name))")
  case False
  then have "os_makedirs f name = os_mkdir f name"
    by (subst os_makedirs.simps) (rule if_not_P)
  with assms(1) show ?thesis by (simp add: os_mkdir_existing)
next
  case True
  obtain r1 f1 where rec: "os_makedirs f (fst (makedirs_split name)) = (r1, f1)"
    by (cases "os_makedirs f (fst (makedirs_split name))")
  from os_path_exists_mono [OF os_makedirs_mono [OF rec] assms(1)]
  have "fst (os_mkdir f1 name) \<noteq> None"
    by (rule os_mkdir_existing)
  with True rec assms(2) show ?thesis
    by (auto simp: os_makedirs.simps [of f name] split: option.splits)
qed

lemma os_makedirs_created:
  assumes "os_makedirs f name = (None, f')" "snd (os_path_split name) \<notin> {[], ''.'', ''..''}"
  shows "os_path_isdir f' name"
proof -
  from assms(2) have ms: "makedirs_split name = os_path_split name"
    by (simp add: makedirs_split_def)
  show ?thesis
  proof (cases "fst (makedirs_split name) \<noteq> [] \<and> snd (makedirs_split name) \<noteq> []
                  \<and> \<not> os_path_exists f (fst (makedirs_split name))")
    case False
    then have "os_makedirs f name = os_mkdir f name"
      by (subst os_makedirs.simps) (rule if_not_P)
    with assms(1) have "os_mkdir f name = (None, f')" by simp
    then show ?thesis using assms(2) by (rule os_mkdir_created)
  next
    case True
    obtain r1 f1 where rec: "os_makedirs f (fst (makedirs_split name)) = (r1, f1)"
      by (cases "os_makedirs f (fst (makedirs_split name))")
    with True assms ms have "os_mkdir f1 name = (None, f')"
      by (auto simp: os_makedirs.simps [of f name] split: option.splits if_splits)
    then show ?thesis using assms(2) by (rule os_mkdir_created)
  qed
qed

lemma os_path_split_append:
  assumes "CHR ''/'' \<notin> set b"
  shows "os_path_split (x @ ''/'' @ b) =
           (if all_slashes x then x @ ''/'' else rstrip_slashes x, b)"
proof -
  have nb: "\<And>c. c \<in> set (rev b) \<Longrightarrow> c \<noteq> CHR ''/''"
    using assms by auto
  have "takeWhile (\<lambda>c. c \<noteq> CHR ''/'') (rev b @ CHR ''/'' # rev x)
               = rev b @ takeWhile (\<lambda>c. c \<noteq> CHR ''/'') (CHR ''/'' # rev x)"
    using nb by (rule takeWhile_append2)
  then have t: "takeWhile (\<lambda>c. c \<noteq> CHR ''/'') (rev b @ CHR ''/'' # rev x) = rev b"
    by simp
  have "dropWhile (\<lambda>c. c \<noteq> CHR ''/'') (rev b @ CHR ''/'' # rev x)
               = dropWhile (\<lambda>c. c \<noteq> CHR ''/'') (CHR ''/'' # rev x)"
    using nb by (rule dropWhile_append2)
  then have d: "dropWhile (\<lambda>c. c \<noteq> CHR ''/'') (rev b @ CHR ''/'' # rev x) = CHR ''/'' # rev x"
    by simp
  have a: "all_slashes (x @ ''/'') \<longleftrightarrow> all_slashes x" by (auto simp: all_slashes_def)
  show ?thesis
    by (simp add: os_path_split_def Let_def t d a rstrip_slashes_append_slash [simplified])
qed

lemma scratch_dir_stamp_dir:
  "scratch_dir E archive work_dir w = stamp_dir E work_dir w @ ''/'' @ snd (os_path_split archive)"
  by (simp add: scratch_dir_def stamp_dir_def)

lemma stamp_name:
  assumes "CHR ''/'' \<notin> set (fs_safe_now E (clock w))"
  shows "CHR ''/'' \<notin> set (fs_safe_now E (clock w) @ ''-'' @ take 6 (uuid_hex (uuid4 E (entropy w))))"
    and "fs_safe_now E (clock w) @ ''-'' @ take 6 (uuid_hex (uuid4 E (entropy w))) \<notin> {[], ''.'', ''..''}"
proof -
  let ?rand = "take 6 (uuid_hex (uuid4 E (entropy w)))"
  show "CHR ''/'' \<notin> set (fs_safe_now E (clock w) @ ''-'' @ ?rand)"
    using assms set_rand [of "uuid4 E (entropy w)"] by auto
  define a where "a = fs_safe_now E (clock w) @ ''-'' @ ?rand"
  have "length a \<ge> 7"
    using length_rand [of "uuid4 E (entropy w)"] by (simp add: a_def)
  then have "a \<notin> {[], ''.'', ''..''}" by auto
  then show "fs_safe_now E (clock w) @ ''-'' @ ?rand \<notin> {[], ''.'', ''..''}"
    unfolding a_def .
qed

lemma last_stamp_dir:
  "stamp_dir E work_dir w \<noteq> [] \<and> last (stamp_dir E work_dir w) \<noteq> CHR ''/''"
proof -
  let ?rand = "take 6 (uuid_hex (uuid4 E (entropy w)))"
  have rand: "?rand \<noteq> []" using length_rand [of "uuid4 E (entropy w)"] by auto
  have "last ?rand \<in> set ''0123456789abcdef''"
    using rand set_rand [of "uuid4 E (entropy w)"] last_in_set [of ?rand] by blast
  then have "last ?rand \<noteq> CHR ''/''" by auto
  with rand show ?thesis by (simp add: stamp_dir_def)
qed

lemma split_scratch_dir:
  "os_path_split (scratch_dir E archive work_dir w)
     = (stamp_dir E work_dir w, snd (os_path_split archive))"
proof -
  from last_stamp_dir [of E work_dir w]
  have l: "stamp_dir E work_dir w \<noteq> []" "last (stamp_dir E work_dir w) \<noteq> CHR ''/''" by simp_all
  then have "last (stamp_dir E work_dir w) \<in> set (stamp_dir E work_dir w)" by simp
  with l(2) have "\<not> all_slashes (stamp_dir E work_dir w)" by (auto simp: all_slashes_def)
  moreover from l have "rstrip_slashes (stamp_dir E work_dir w) = stamp_dir E work_dir w"
    by (simp add: rstrip_slashes_id)
  ultimately show ?thesis
    unfolding scratch_dir_stamp_dir
    by (simp only: os_path_split_append [OF snd_os_path_split_no_slash [of archive]] if_False)
qed

text \<open>A working root that is a directory is one with the separator after it, too.\<close>

lemma with_sep_isdir:
  assumes "os_path_isdir f work_dir"
  shows "os_path_isdir f (with_sep work_dir)"
proof (cases "work_dir = [] \<or> endswith work_dir ''/''")
  case True
  with assms show ?thesis by (simp add: with_sep_def)
next
  case False
  then have wd: "work_dir \<noteq> []" "last work_dir \<noteq> CHR ''/''" by (auto simp: endswith_slash)
  then have "last work_dir \<in> set work_dir" by simp
  with wd(2) have na: "\<not> all_slashes (work_dir @ ''/'')" by (auto simp: all_slashes_def)
  have sp: "os_path_split (work_dir @ ''/'') = (work_dir, [])"
    using os_path_split_append [of "[]" work_dir] wd na
    by (simp add: rstrip_slashes_id all_slashes_def)
  from assms wd(1) na show ?thesis
    by (simp add: with_sep_def False os_path_isdir_def lookup_node.simps [of f "work_dir @ ''/''"] sp)
qed

text \<open>The parent \<^verbatim>\<open>os.path.split\<close> gives for the directory of the time stamp is the
  working root, up to its trailing slashes: a directory when the working root is one.\<close>

lemma stamp_dir_parent:
  assumes "CHR ''/'' \<notin> set (fs_safe_now E (clock w))" "os_path_isdir f work_dir"
  shows "fst (os_path_split (stamp_dir E work_dir w)) \<noteq> []
       \<and> os_path_isdir f (fst (os_path_split (stamp_dir E work_dir w)))"
    and "snd (os_path_split (stamp_dir E work_dir w))
           = fs_safe_now E (clock w) @ ''-'' @ take 6 (uuid_hex (uuid4 E (entropy w)))"
proof -
  let ?a = "fs_safe_now E (clock w) @ ''-'' @ take 6 (uuid_hex (uuid4 E (entropy w)))"
  from assms(2) have wd: "work_dir \<noteq> []"
    by (auto simp: os_path_isdir_def lookup_node.simps [of f "[]"])
  have "\<exists>y. with_sep work_dir = y @ ''/''"
  proof (cases "endswith work_dir ''/''")
    case True
    with wd have "work_dir = butlast work_dir @ ''/''"
      using append_butlast_last_id [of work_dir] by (simp add: endswith_slash)
    with True have "with_sep work_dir = butlast work_dir @ ''/''" by (simp add: with_sep_def)
    then show ?thesis by blast
  next
    case False
    with wd show ?thesis by (simp add: with_sep_def)
  qed
  then obtain y where y: "with_sep work_dir = y @ ''/''" by blast
  have sd: "stamp_dir E work_dir w = y @ ''/'' @ ?a"
    by (simp add: stamp_dir_def y)
  have sp: "os_path_split (stamp_dir E work_dir w) = (if all_slashes y then y @ ''/'' else rstrip_slashes y, ?a)"
    unfolding sd by (rule os_path_split_append) (rule stamp_name(1) [OF assms(1)])
  then show "snd (os_path_split (stamp_dir E work_dir w)) = ?a" by simp
  from with_sep_isdir [OF assms(2)] have dir: "lookup_node f (y @ ''/'') = Some Dir"
    by (simp add: y os_path_isdir_def)
  show "fst (os_path_split (stamp_dir E work_dir w)) \<noteq> []
       \<and> os_path_isdir f (fst (os_path_split (stamp_dir E work_dir w)))"
  proof (cases "all_slashes y")
    case True
    then have "all_slashes (y @ ''/'')" by (auto simp: all_slashes_def)
    with True sp show ?thesis
      by (simp add: os_path_isdir_def lookup_node.simps [of f "y @ ''/''"])
  next
    case False
    then have na: "\<not> all_slashes (y @ ''/'')" by (auto simp: all_slashes_def)
    from False have ne: "rstrip_slashes y \<noteq> []" by (simp add: rstrip_slashes_Nil)
    have sy: "os_path_split (y @ ''/'') = (rstrip_slashes y, [])"
      using os_path_split_append [of "[]" y] False by simp
    from dir na ne have "lookup_node f (rstrip_slashes y) = Some Dir"
      by (auto simp: lookup_node.simps [of f "y @ ''/''"] sy split: option.splits fsnode.splits)
    with False sp ne show ?thesis by (simp add: os_path_isdir_def)
  qed
qed

text \<open>When the working root is a directory and neither the directory of the time stamp nor
  the one of the archive exists, \<^verbatim>\<open>os.makedirs\<close> creates both, in this order.\<close>

lemma os_makedirs_scratch_dir:
  assumes stamp: "CHR ''/'' \<notin> set (fs_safe_now E (clock w))"
    and base: "snd (os_path_split archive) \<notin> {[], ''.'', ''..''}"
    and root: "os_path_isdir f work_dir"
    and fresh: "\<not> os_path_exists f (stamp_dir E work_dir w)"
               "\<not> os_path_exists f (scratch_dir E archive work_dir w)"
  shows "os_makedirs f (scratch_dir E archive work_dir w)
           = (None, f(stamp_dir E work_dir w \<mapsto> Dir, scratch_dir E archive work_dir w \<mapsto> Dir))"
proof -
  let ?p = "stamp_dir E work_dir w"
  let ?d = "scratch_dir E archive work_dir w"
  let ?b = "snd (os_path_split archive)"
  note par = stamp_dir_parent [OF stamp root]
  have plain_p: "snd (os_path_split ?p) \<notin> {[], ''.'', ''..''}"
    unfolding par(2) by (rule stamp_name(2) [OF stamp])
  have plain_d: "snd (os_path_split ?d) \<notin> {[], ''.'', ''..''}"
    using base by (simp add: split_scratch_dir)
  have ms_p: "makedirs_split ?p = os_path_split ?p"
    using plain_p by (simp add: makedirs_split_def)
  have ms_d: "makedirs_split ?d = (?p, ?b)"
    using plain_d by (simp add: makedirs_split_def split_scratch_dir)
  have root_exists: "os_path_exists f (fst (os_path_split ?p))"
    using par(1) by (simp add: os_path_exists_def os_path_isdir_def)
  have mk_p: "os_makedirs f ?p = (None, f(?p \<mapsto> Dir))"
  proof -
    have "os_makedirs f ?p = os_mkdir f ?p"
      by (subst os_makedirs.simps) (simp add: ms_p root_exists)
    also have "\<dots> = (None, f(?p \<mapsto> Dir))"
      using fresh(1) par(1) by (simp add: os_mkdir_plain [OF plain_p])
    finally show ?thesis .
  qed
  have ne: "?d \<noteq> ?p" by (simp add: scratch_dir_stamp_dir)
  have "\<not> os_path_exists (f(?p \<mapsto> Dir)) ?d"
    using fresh(2) ne by (simp add: os_path_exists_def lookup_node_plain [OF plain_d])
  moreover have "os_path_isdir (f(?p \<mapsto> Dir)) ?p"
    by (simp add: os_path_isdir_def lookup_node_plain [OF plain_p])
  ultimately have mk_d: "os_mkdir (f(?p \<mapsto> Dir)) ?d = (None, f(?p \<mapsto> Dir, ?d \<mapsto> Dir))"
    by (simp add: os_mkdir_plain [OF plain_d] split_scratch_dir)
  from last_stamp_dir [of E work_dir w] have "?p \<noteq> []" by simp
  moreover from base have "?b \<noteq> []" "?b \<noteq> ''.''" by auto
  ultimately show ?thesis
    by (subst os_makedirs.simps) (simp add: ms_d fresh(1) mk_p mk_d)
qed

text \<open>
  C8. Let the time stamp be free of slashes and the archive path end in a file name. With
  \<open>rand\<close> the first six hexadecimal digits of the random UUID, \<^verbatim>\<open>decompress\<close> works on the
  directory \<open>root/stamp-rand/base\<close>: it calls \<^verbatim>\<open>os.makedirs\<close> on it, then
  \<^verbatim>\<open>zato.common.util.decompress\<close> with the archive and this directory, and returns this
  directory; it raises what either of them raises, and does not unpack when
  \<^verbatim>\<open>os.makedirs\<close> raised. \<^verbatim>\<open>os.makedirs\<close> raises when the directory exists; when it
  returns, the directory did not exist before and is a directory now; and it does return,
  having created \<open>root/stamp-rand\<close> and the directory under it, when the working root is
  a directory and neither of the two exists.
\<close>

theorem decompress_creates_fresh_directory:
  assumes "CHR ''/'' \<notin> set (fs_safe_now E (clock w))"
    and "snd (os_path_split archive) \<notin> {[], ''.'', ''..''}"
    and "rand = take 6 (uuid_hex (uuid4 E (entropy w)))"
    and "parent = with_sep work_dir @ fs_safe_now E (clock w) @ ''-'' @ rand"
    and "d = parent @ ''/'' @ snd (os_path_split archive)"
  shows "length rand = 6 \<and> set rand \<subseteq> set ''0123456789abcdef''
     \<and> decompress E archive (Some work_dir) w =
           (case os_makedirs (fs w) d of
              (Some e, f') \<Rightarrow> (Inl e, w\<lparr>entropy := Suc (entropy w), clock := Suc (clock w), fs := f'\<rparr>)
            | (None, f') \<Rightarrow>
                (case util_decompress E archive d f' of
                   (Some e, f'') \<Rightarrow>
                     (Inl e, w\<lparr>entropy := Suc (entropy w), clock := Suc (clock w), fs := f''\<rparr>)
                 | (None, f'') \<Rightarrow>
                     (Inr d, w\<lparr>entropy := Suc (entropy w), clock := Suc (clock w), fs := f''\<rparr>)))
     \<and> (os_path_exists (fs w) d \<longrightarrow> fst (os_makedirs (fs w) d) \<noteq> None)
     \<and> (fst (os_makedirs (fs w) d) = None \<longrightarrow>
           \<not> os_path_exists (fs w) d \<and> os_path_isdir (snd (os_makedirs (fs w) d)) d)
     \<and> (os_path_isdir (fs w) work_dir \<and> \<not> os_path_exists (fs w) parent \<and> \<not> os_path_exists (fs w) d \<longrightarrow>
           os_makedirs (fs w) d = (None, (fs w)(parent \<mapsto> Dir, d \<mapsto> Dir)))"
proof -
  have p: "parent = stamp_dir E work_dir w"
    by (simp add: assms(3,4) stamp_dir_def)
  have d: "d = scratch_dir E archive work_dir w"
    by (simp add: assms(3,4,5) scratch_dir_def)
  have plain: "snd (os_path_split d) \<notin> {[], ''.'', ''..''}"
    using assms(2) by (simp add: d split_scratch_dir)
  then have tail: "snd (makedirs_split d) \<noteq> ''.''"
    by (simp add: makedirs_split_def)
  have rand: "length rand = 6 \<and> set rand \<subseteq> set ''0123456789abcdef''"
    unfolding assms(3) using length_rand set_rand by blast
  have run: "decompress E archive (Some work_dir) w =
           (case os_makedirs (fs w) d of
              (Some e, f') \<Rightarrow> (Inl e, w\<lparr>entropy := Suc (entropy w), clock := Suc (clock w), fs := f'\<rparr>)
            | (None, f') \<Rightarrow>
                (case util_decompress E archive d f' of
                   (Some e, f'') \<Rightarrow>
                     (Inl e, w\<lparr>entropy := Suc (entropy w), clock := Suc (clock w), fs := f''\<rparr>)
                 | (None, f'') \<Rightarrow>
                     (Inr d, w\<lparr>entropy := Suc (entropy w), clock := Suc (clock w), fs := f''\<rparr>)))"
    unfolding d by (rule decompress_normal_form [OF assms(1)])
  have exists: "os_path_exists (fs w) d \<longrightarrow> fst (os_makedirs (fs w) d) \<noteq> None"
    using os_makedirs_existing [OF _ tail] by blast
  have created: "fst (os_makedirs (fs w) d) = None \<longrightarrow>
           \<not> os_path_exists (fs w) d \<and> os_path_isdir (snd (os_makedirs (fs w) d)) d"
  proof
    assume none: "fst (os_makedirs (fs w) d) = None"
    then have mk: "os_makedirs (fs w) d = (None, snd (os_makedirs (fs w) d))"
      by (cases "os_makedirs (fs w) d") simp
    from os_makedirs_created [OF mk plain] exists none
    show "\<not> os_path_exists (fs w) d \<and> os_path_isdir (snd (os_makedirs (fs w) d)) d" by blast
  qed
  have fresh: "os_path_isdir (fs w) work_dir \<and> \<not> os_path_exists (fs w) parent
        \<and> \<not> os_path_exists (fs w) d \<longrightarrow>
           os_makedirs (fs w) d = (None, (fs w)(parent \<mapsto> Dir, d \<mapsto> Dir))"
    unfolding p d using os_makedirs_scratch_dir [OF assms(1,2)] by blast
  show ?thesis
    by (intro conjI) (use rand in blast, use rand in blast, rule run, rule exists, rule created, rule fresh)
qed

theorem decompress_creates_fresh_directory_witness:
  "decompress E0 ''zato-billing.tar.bz2'' (Some ''/srv'') w0 =
     (Inr dir1, w0\<lparr>entropy := 1, clock := 1,
                   fs := (fs w0)(stamp1 \<mapsto> Dir, dir1 \<mapsto> Dir, dir1 @ ''/svc.py'' \<mapsto> File True src0)\<rparr>)
   \<and> os_path_isdir (fs w0) ''/srv'' \<and> \<not> os_path_exists (fs w0) stamp1
   \<and> \<not> os_path_exists (fs w0) dir1"
proof -
  have stamp: "CHR ''/'' \<notin> set (fs_safe_now E0 (clock w0))"
    by (simp add: w0_def E0_def hex_digit_def)
  have base: "snd (os_path_split ''zato-billing.tar.bz2'') \<notin> {[], ''.'', ''..''}"
    by (simp add: path_defs)
  have rand: "''abcdef'' = take 6 (uuid_hex (uuid4 E0 (entropy w0)))"
    by (simp add: uuid_hex_def hex_digit_def hex_digits_numeral E0_def w0_def)
  have parent: "stamp1 = with_sep ''/srv'' @ fs_safe_now E0 (clock w0) @ ''-'' @ ''abcdef''"
    by (simp add: stamp1_def with_sep_def hex_digit_def E0_def w0_def path_defs)
  have d: "dir1 = stamp1 @ ''/'' @ snd (os_path_split ''zato-billing.tar.bz2'')"
    by (simp add: dir1_def stamp1_def path_defs)
  have here: "os_path_isdir (fs w0) ''/srv''" "\<not> os_path_exists (fs w0) stamp1"
      "\<not> os_path_exists (fs w0) dir1"
    by (simp_all add: w0_def stamp1_def dir1_def path_defs)
  note th = decompress_creates_fresh_directory [OF stamp base rand parent d]
  from th here have mk: "os_makedirs (fs w0) dir1 = (None, (fs w0)(stamp1 \<mapsto> Dir, dir1 \<mapsto> Dir))"
    by blast
  from th have "decompress E0 ''zato-billing.tar.bz2'' (Some ''/srv'') w0 =
           (case os_makedirs (fs w0) dir1 of
              (Some e, f') \<Rightarrow> (Inl e, w0\<lparr>entropy := Suc (entropy w0), clock := Suc (clock w0), fs := f'\<rparr>)
            | (None, f') \<Rightarrow>
                (case util_decompress E0 ''zato-billing.tar.bz2'' dir1 f' of
                   (Some e, f'') \<Rightarrow>
                     (Inl e, w0\<lparr>entropy := Suc (entropy w0), clock := Suc (clock w0), fs := f''\<rparr>)
                 | (None, f'') \<Rightarrow>
                     (Inr dir1, w0\<lparr>entropy := Suc (entropy w0), clock := Suc (clock w0), fs := f''\<rparr>)))"
    by blast
  then have "decompress E0 ''zato-billing.tar.bz2'' (Some ''/srv'') w0 =
     (Inr dir1, w0\<lparr>entropy := 1, clock := 1,
                   fs := (fs w0)(stamp1 \<mapsto> Dir, dir1 \<mapsto> Dir, dir1 @ ''/svc.py'' \<mapsto> File True src0)\<rparr>)"
    unfolding mk by (simp add: E0_def w0_def)
  with here show ?thesis by simp
qed

lemma scratch_dir0: "scratch_dir E0 ''zato-billing.tar.bz2'' ''/var/work'' w = dir0" if "clock w = 0" "entropy w = 0"
  using that
  by (simp add: scratch_dir_def dir0_def with_sep_def uuid_hex_def hex_digit_def hex_digits_numeral
      E0_def path_defs)

lemma makedirs0: "os_makedirs (fs w0) dir0 = (None, fs_made)"
  by (simp add: os_makedirs.simps fs_made_def dir0_def path_defs w0_def)

lemma decompress0:
  "decompress E0 ''zato-billing.tar.bz2'' (Some ''/var/work'')
     (log_msg DEBUG ''About to import services from:[%s]'' [''zato-billing.tar.bz2''] w0)
   = (Inr dir0, w_unpacked)"
proof -
  let ?w = "log_msg DEBUG ''About to import services from:[%s]'' [''zato-billing.tar.bz2''] w0"
  have w: "clock ?w = 0" "entropy ?w = 0" "fs ?w = fs w0"
    by (simp_all add: log_msg_def w0_def)
  have "CHR ''/'' \<notin> set (fs_safe_now E0 (clock ?w))"
    by (simp add: w E0_def hex_digit_def)
  note nf = decompress_normal_form [OF this, of "''zato-billing.tar.bz2''" "''/var/work''"]
  have sd: "scratch_dir E0 ''zato-billing.tar.bz2'' ''/var/work'' ?w = dir0"
    by (rule scratch_dir0) (simp_all add: w)
  have ud: "util_decompress E0 ''zato-billing.tar.bz2'' dir0 fs_made
              = (None, fs_made(dir0 @ ''/svc.py'' \<mapsto> File True src0))"
    by (simp add: E0_def)
  show ?thesis
    unfolding nf sd w(3) makedirs0
    by (simp add: ud w_unpacked_def log_msg_def w0_def)
qed

lemma directory0:
  "fst (import_services_from_directory E0 dir0 w_unpacked) = Inr ()"
  "map call_is_internal (odb_calls (snd (import_services_from_directory E0 dir0 w_unpacked))) = [False]"
  by (simp_all add: dir0_def fs_made_def w_unpacked_def path_defs step_defs store_defs fixture_defs)

lemma run_archive_eq:
  "run_archive = (Inr (), snd (import_services_from_directory E0 dir0 w_unpacked))"
proof -
  let ?w = "log_msg DEBUG ''About to import services from:[%s]'' [''zato-billing.tar.bz2''] w0"
  have arch: "is_archive_file E0 ''zato-billing.tar.bz2''"
    by (simp add: E0_def endswith_def)
  have "import_item E0 ''zato-billing.tar.bz2'' None (Some ''/var/work'') ?w
          = import_services_from_directory E0 dir0 w_unpacked"
    by (simp only: import_item_def arch if_True
        and_then_Inr [where m = "decompress E0 ''zato-billing.tar.bz2'' (Some ''/var/work'')", OF decompress0])
  then show ?thesis
    using directory0(1)
    by (cases "import_services_from_directory E0 dir0 w_unpacked")
       (simp add: run_archive_def and_then_def ret_def)
qed

text \<open>
  C9 as stated fails: the archive \<^verbatim>\<open>zato-billing.tar.bz2\<close> has a name that starts with the
  prefix, its import succeeds, and the one service found in it is passed to the durable
  store with the flag false.
\<close>

theorem internal_flag_counterexample:
  "startswith ''zato-billing.tar.bz2'' ''zato'' \<and> fst run_archive = Inr ()
     \<and> map call_is_internal (odb_calls (snd run_archive)) = [False]"
  by (simp add: run_archive_eq directory0(2) startswith_def)

lemma run_module_value:
  "map call_is_internal (odb_calls (snd run_module)) = [True]"
  by (simp add: run_module_def path_defs step_defs store_defs fixture_defs)

theorem internal_flag_of_item_witness:
  "call_is_internal (hd (odb_calls (snd run_module)))
     \<and> startswith ''zato.server.service.internal.ping'' ''zato''
     \<and> \<not> is_archive_file E0 ''zato.server.service.internal.ping''
     \<and> \<not> os_path_isdir (fs w0) ''zato.server.service.internal.ping''"
proof -
  have run: "import_services_from_anywhere E0 [''zato.server.service.internal.ping''] None None w0
               = (fst run_module, snd run_module)"
    by (simp add: run_module_def)
  from run_module_value obtain c where c: "odb_calls (snd run_module) = [c]" by auto
  then have mem: "hd (odb_calls (snd run_module)) \<in> set (new_calls w0 (snd run_module))"
    by (simp add: new_calls_def w0_def)
  from internal_flag_of_item [OF run mem] run_module_value c show ?thesis by simp
qed

section \<open>A durable store that refuses\<close>





section \<open>A module whose file is gone\<close>


section \<open>Importing the same file again\<close>























end
